theory Spec2Isabelle
  imports Complex_Main
begin

section \<open>The navigation engine of the drone simulator\<close>

text \<open>
  A shallow embedding of the navigation core of the simulator component
  (the file with \<^verbatim>\<open>astar\<close>, \<^verbatim>\<open>smoothPath\<close>, \<^verbatim>\<open>hasLineOfSight\<close>, \<^verbatim>\<open>rrt\<close>,
  \<^verbatim>\<open>apfNavigate\<close>, \<^verbatim>\<open>simulateLidar\<close>, \<^verbatim>\<open>onClick\<close> and \<^verbatim>\<open>animate\<close>).

  JavaScript numbers are modelled as real numbers: \<^verbatim>\<open>Math.hypot\<close>, \<^verbatim>\<open>Math.sqrt\<close>,
  \<^verbatim>\<open>Math.cos\<close>, \<^verbatim>\<open>Math.sin\<close>, \<^verbatim>\<open>Math.SQRT2\<close> are the exact functions and constants,
  and rounding errors of IEEE doubles are not modelled. Where the source relies on
  \<^verbatim>\<open>NaN\<close> or \<^verbatim>\<open>Infinity\<close> the model writes the case out. \<^verbatim>\<open>Math.random()\<close> is a
  stream \<open>rnd :: nat \<Rightarrow> real\<close> read through a cursor that counts the draws.
  Drawing code and the React statistics panel are left out; they do not write the
  simulation state.
\<close>

subsection \<open>Data model\<close>

record Vec2 =
  vec_x :: real
  vec_y :: real

datatype ObstacleType = Static | Dynamic

text \<open>The cosmetic fields of an obstacle (colour, animation phase, rotor angle, kind of
  building) are read by the drawing code only and are left out.\<close>

record Obstacle =
  ob_x :: real
  ob_y :: real
  ob_width :: real
  ob_height :: real
  ob_type :: ObstacleType
  ob_velocity :: "Vec2 option"

record LidarRay =
  ray_angle :: real
  ray_distance :: real
  ray_hit :: bool
  ray_hitPoint :: "Vec2 option"

definition GRID_SIZE :: real where "GRID_SIZE = 15"
definition LIDAR_RAYS :: nat where "LIDAR_RAYS = 36"
definition LIDAR_RANGE :: real where "LIDAR_RANGE = 120"
definition SAFE_DISTANCE :: real where "SAFE_DISTANCE = 40"
definition DRONE_RADIUS :: real where "DRONE_RADIUS = 12"

definition hypot :: "real \<Rightarrow> real \<Rightarrow> real" where
  "hypot a b = sqrt (a\<^sup>2 + b\<^sup>2)"

subsection \<open>The simulated range sensor\<close>

text \<open>The test of the inner loop of \<^verbatim>\<open>simulateLidar\<close>: the sample lies strictly inside the
  obstacle's rectangle.\<close>

definition insideObstacle :: "real \<Rightarrow> real \<Rightarrow> Obstacle \<Rightarrow> bool" where
  "insideObstacle px py obs \<longleftrightarrow>
     px > ob_x obs \<and> px < ob_x obs + ob_width obs \<and>
     py > ob_y obs \<and> py < ob_y obs + ob_height obs"

text \<open>Ray marching, \<^verbatim>\<open>for (let d = 5; d < LIDAR_RANGE; d += 3)\<close>: the result is the
  distance and point at which the ray left the canvas or entered an obstacle, or \<open>None\<close>
  when the loop ran to its end.\<close>

function rayMarch ::
  "Vec2 \<Rightarrow> real \<Rightarrow> Obstacle list \<Rightarrow> real \<Rightarrow> real \<Rightarrow> real \<Rightarrow> (real \<times> Vec2) option" where
  "rayMarch drone angle obstacles canvasWidth canvasHeight d =
     (if d < LIDAR_RANGE then
        (let px = vec_x drone + cos angle * d;
             py = vec_y drone + sin angle * d
         in if px < 0 \<or> px > canvasWidth \<or> py < 0 \<or> py > canvasHeight
            then Some (d, \<lparr>vec_x = px, vec_y = py\<rparr>)
            else if list_ex (insideObstacle px py) obstacles
            then Some (d, \<lparr>vec_x = px, vec_y = py\<rparr>)
            else rayMarch drone angle obstacles canvasWidth canvasHeight (d + 3))
      else None)"
  by pat_completeness auto
termination
proof (relation "measure (\<lambda>(drone, angle, obstacles, w, h, d). nat \<lceil>LIDAR_RANGE - d\<rceil>)")
  fix d :: real
  fix drone :: Vec2 and angle :: real and obstacles :: "Obstacle list"
    and canvasWidth canvasHeight x xa :: real
  assume "d < LIDAR_RANGE"
  then have "0 < \<lceil>LIDAR_RANGE - d\<rceil>" by simp
  moreover have "\<lceil>LIDAR_RANGE - (d + 3)\<rceil> = \<lceil>LIDAR_RANGE - d\<rceil> - 3"
    by (simp add: ceiling_diff_numeral [symmetric] algebra_simps)
  ultimately show "((drone, angle, obstacles, canvasWidth, canvasHeight, d + 3),
      drone, angle, obstacles, canvasWidth, canvasHeight, d)
     \<in> measure (\<lambda>(drone, angle, obstacles, w, h, d). nat \<lceil>LIDAR_RANGE - d\<rceil>)"
    by simp
qed simp

declare rayMarch.simps [simp del]

definition castRay ::
  "Vec2 \<Rightarrow> real \<Rightarrow> Obstacle list \<Rightarrow> real \<Rightarrow> real \<Rightarrow> nat \<Rightarrow> LidarRay" where
  "castRay drone heading obstacles canvasWidth canvasHeight i =
     (let angle = heading + (real i / real LIDAR_RAYS) * pi * 2
      in case rayMarch drone angle obstacles canvasWidth canvasHeight 5 of
           None \<Rightarrow> \<lparr>ray_angle = angle, ray_distance = LIDAR_RANGE, ray_hit = False,
                     ray_hitPoint = None\<rparr>
         | Some (d, p) \<Rightarrow> \<lparr>ray_angle = angle, ray_distance = d, ray_hit = True,
                           ray_hitPoint = Some p\<rparr>)"

definition simulateLidar ::
  "Vec2 \<Rightarrow> real \<Rightarrow> Obstacle list \<Rightarrow> real \<Rightarrow> real \<Rightarrow> LidarRay list" where
  "simulateLidar drone heading obstacles canvasWidth canvasHeight =
     map (castRay drone heading obstacles canvasWidth canvasHeight) [0..<LIDAR_RAYS]"

subsection \<open>Line of sight and path smoothing\<close>

text \<open>The test of \<^verbatim>\<open>hasLineOfSight\<close>: the sample lies strictly inside the obstacle's
  rectangle inflated by the drone radius.\<close>

definition inflatedHit :: "real \<Rightarrow> real \<Rightarrow> Obstacle \<Rightarrow> bool" where
  "inflatedHit px py obs \<longleftrightarrow>
     px > ob_x obs - DRONE_RADIUS \<and> px < ob_x obs + ob_width obs + DRONE_RADIUS \<and>
     py > ob_y obs - DRONE_RADIUS \<and> py < ob_y obs + ob_height obs + DRONE_RADIUS"

text \<open>One sample of the loop \<^verbatim>\<open>for (let i = 0; i <= steps; i++)\<close>: \<open>True\<close> when the
  sample hits no inflated obstacle.\<close>

definition sampleFree :: "Vec2 \<Rightarrow> Vec2 \<Rightarrow> Obstacle list \<Rightarrow> nat \<Rightarrow> nat \<Rightarrow> bool" where
  "sampleFree a b obstacles steps i =
     (let t = real i / real steps;
          px = vec_x a + (vec_x b - vec_x a) * t;
          py = vec_y a + (vec_y b - vec_y a) * t
      in \<not> list_ex (inflatedHit px py) obstacles)"

text \<open>When the two points coincide, \<open>steps = 0\<close> and the only sample has \<open>t = 0/0\<close>, a
  \<^verbatim>\<open>NaN\<close> in the source: every comparison with it is false, no obstacle is hit and the
  function returns \<^verbatim>\<open>true\<close>. The model writes that case out.\<close>

definition hasLineOfSight :: "Vec2 \<Rightarrow> Vec2 \<Rightarrow> Obstacle list \<Rightarrow> bool" where
  "hasLineOfSight a b obstacles =
     (let steps = nat \<lceil>hypot (vec_x b - vec_x a) (vec_y b - vec_y a) / 5\<rceil>
      in if steps = 0 then True
         else list_all (sampleFree a b obstacles steps) [0..<Suc steps])"

text \<open>The inner loop of \<^verbatim>\<open>smoothPath\<close>,
  \<^verbatim>\<open>for (let i = path.length - 1; i > current + 1; i--)\<close>: the furthest later waypoint
  in line of sight, or \<open>current + 1\<close> when the loop finds none.\<close>

fun furthestVisible :: "Vec2 list \<Rightarrow> Obstacle list \<Rightarrow> nat \<Rightarrow> nat \<Rightarrow> nat" where
  "furthestVisible path obstacles current i =
     (if i > current + 1 then
        (if hasLineOfSight (path ! current) (path ! i) obstacles then i
         else furthestVisible path obstacles current (i - 1))
      else current + 1)"

declare furthestVisible.simps [simp del]

lemma furthestVisible_gt: "current < furthestVisible path obstacles current i"
  by (induction path obstacles current i rule: furthestVisible.induct)
     (subst furthestVisible.simps, simp)

lemma furthestVisible_le:
  "current + 1 \<le> i \<Longrightarrow> furthestVisible path obstacles current i \<le> i"
proof (induction path obstacles current i rule: furthestVisible.induct)
  case (1 path obstacles current i)
  show ?case
  proof (cases "i > current + 1 \<and> \<not> hasLineOfSight (path ! current) (path ! i) obstacles")
    case True
    then have "furthestVisible path obstacles current (i - 1) \<le> i - 1"
      by (intro "1.IH") auto
    with True show ?thesis by (subst furthestVisible.simps) simp
  next
    case False
    with "1.prems" show ?thesis by (subst furthestVisible.simps) auto
  qed
qed

function smoothLoop :: "Vec2 list \<Rightarrow> Obstacle list \<Rightarrow> nat \<Rightarrow> Vec2 list \<Rightarrow> Vec2 list" where
  "smoothLoop path obstacles current smoothed =
     (if current < length path - 1 then
        (let furthest = furthestVisible path obstacles current (length path - 1)
         in smoothLoop path obstacles furthest (smoothed @ [path ! furthest]))
      else smoothed)"
  by pat_completeness auto
termination
proof (relation "measure (\<lambda>(path, obstacles, current, smoothed). length path - current)")
  fix path :: "Vec2 list" and obstacles :: "Obstacle list" and current :: nat
    and smoothed :: "Vec2 list" and furthest :: nat
  assume c: "current < length path - 1"
    and f: "furthest = furthestVisible path obstacles current (length path - 1)"
  from c have "furthest \<le> length path - 1"
    unfolding f by (intro furthestVisible_le) simp
  moreover have "current < furthest"
    unfolding f by (rule furthestVisible_gt)
  ultimately show "((path, obstacles, furthest, smoothed @ [path ! furthest]),
      path, obstacles, current, smoothed)
    \<in> measure (\<lambda>(path, obstacles, current, smoothed). length path - current)"
    using c by simp
qed simp

declare smoothLoop.simps [simp del]

definition smoothPath :: "Vec2 list \<Rightarrow> Obstacle list \<Rightarrow> Vec2 list" where
  "smoothPath path obstacles =
     (if length path \<le> 2 then path
      else smoothLoop path obstacles 0 [path ! 0])"

subsection \<open>The field planner\<close>

text \<open>The body of the \<^verbatim>\<open>forEach\<close> of \<^verbatim>\<open>apfNavigate\<close>: the repulsive force accumulated so
  far, with the contribution of one obstacle added.\<close>

definition apfRepulse :: "Vec2 \<Rightarrow> Vec2 \<Rightarrow> Obstacle \<Rightarrow> Vec2" where
  "apfRepulse drone repForce obs =
     (let kRep = 500; influenceRadius = 80;
          cx = ob_x obs + ob_width obs / 2;
          cy = ob_y obs + ob_height obs / 2;
          d = hypot (vec_x drone - cx) (vec_y drone - cy)
                - max (ob_width obs) (ob_height obs) / 2 - DRONE_RADIUS
      in if d < influenceRadius \<and> d > 0 then
           (let magnitude = kRep * (1 / d - 1 / influenceRadius) / (d * d)
            in \<lparr>vec_x = vec_x repForce
                   + magnitude * (vec_x drone - cx) / hypot (vec_x drone - cx) (vec_y drone - cy),
                vec_y = vec_y repForce
                   + magnitude * (vec_y drone - cy) / hypot (vec_x drone - cx) (vec_y drone - cy)\<rparr>)
         else repForce)"

definition apfNavigate :: "Vec2 \<Rightarrow> Vec2 \<Rightarrow> Obstacle list \<Rightarrow> Vec2" where
  "apfNavigate drone goal obstacles =
     (let kAttr = 1;
          dGoal = hypot (vec_x goal - vec_x drone) (vec_y goal - vec_y drone);
          attrForce = \<lparr>vec_x = kAttr * (vec_x goal - vec_x drone) / max dGoal 1,
                       vec_y = kAttr * (vec_y goal - vec_y drone) / max dGoal 1\<rparr>;
          repForce = foldl (apfRepulse drone) \<lparr>vec_x = 0, vec_y = 0\<rparr> obstacles
      in \<lparr>vec_x = vec_x attrForce + vec_x repForce,
          vec_y = vec_y attrForce + vec_y repForce\<rparr>)"

text \<open>The potential of one grid sample of \<^verbatim>\<open>computePotentialField\<close> (visualisation only).\<close>

definition potentialAt :: "Vec2 \<Rightarrow> Obstacle list \<Rightarrow> real \<Rightarrow> real \<Rightarrow> real" where
  "potentialAt goal obstacles px py =
     (let dGoal = hypot (px - vec_x goal) (py - vec_y goal);
          attractive = 0.5 * dGoal;
          influenceRadius = 60;
          repulsive = foldl (\<lambda>rep obs.
              let cx = ob_x obs + ob_width obs / 2;
                  cy = ob_y obs + ob_height obs / 2;
                  d = hypot (px - cx) (py - cy) - max (ob_width obs) (ob_height obs) / 2
              in if d < influenceRadius \<and> d > 0
                 then rep + 500 * (1 / d - 1 / influenceRadius)\<^sup>2
                 else if d \<le> 0 then rep + 10000 else rep) 0 obstacles
      in attractive + repulsive)"

text \<open>The loops \<^verbatim>\<open>for (let x = 0; x < canvasWidth; x += resolution)\<close> visit
  \<open>x = 10 k\<close> for \<open>k < \<lceil>canvasWidth / 10\<rceil>\<close>.\<close>

definition computePotentialField ::
  "Vec2 \<Rightarrow> Obstacle list \<Rightarrow> real \<Rightarrow> real \<Rightarrow> real list list" where
  "computePotentialField goal obstacles canvasWidth canvasHeight =
     map (\<lambda>i. map (\<lambda>j. potentialAt goal obstacles (10 * real i) (10 * real j))
                 [0..<nat \<lceil>canvasHeight / 10\<rceil>])
         [0..<nat \<lceil>canvasWidth / 10\<rceil>]"

subsection \<open>The tree planner\<close>

record TreeNode =
  tn_point :: Vec2
  tn_parent :: int

record TreeEdge =
  edge_from :: Vec2
  edge_to :: Vec2

record RrtResult =
  rr_path :: "Vec2 list"
  rr_tree :: "TreeEdge list"
  rr_nodesExplored :: nat

definition maxIterations :: nat where "maxIterations = 1500"
definition stepSize :: real where "stepSize = 25"
definition goalBias :: real where "goalBias = 0.15"

text \<open>\<^verbatim>\<open>Math.atan2(y, x)\<close> on real numbers (signed zeros are not modelled).\<close>

definition atan2 :: "real \<Rightarrow> real \<Rightarrow> real" where
  "atan2 y x =
     (if x > 0 then arctan (y / x)
      else if x < 0 \<and> y \<ge> 0 then arctan (y / x) + pi
      else if x < 0 \<and> y < 0 then arctan (y / x) - pi
      else if y > 0 then pi / 2
      else if y < 0 then - (pi / 2)
      else 0)"

text \<open>Sampling with goal bias. The first draw decides; a uniform sample takes two more
  draws. The result is the sample and the cursor after the draws.\<close>

definition rrtSample :: "Vec2 \<Rightarrow> real \<Rightarrow> real \<Rightarrow> (nat \<Rightarrow> real) \<Rightarrow> nat \<Rightarrow> Vec2 \<times> nat" where
  "rrtSample goal canvasWidth canvasHeight rnd k =
     (if rnd k < goalBias then (goal, k + 1)
      else (\<lparr>vec_x = rnd (k + 1) * canvasWidth, vec_y = rnd (k + 2) * canvasHeight\<rparr>, k + 3))"

text \<open>The linear scan for the nearest tree node. \<open>nearestDist\<close> starts at \<^verbatim>\<open>Infinity\<close>,
  here \<open>None\<close>.\<close>

fun nearestScan :: "Vec2 \<Rightarrow> TreeNode list \<Rightarrow> nat \<Rightarrow> nat \<Rightarrow> real option \<Rightarrow> nat" where
  "nearestScan sample [] idx nearestIdx nearestDist = nearestIdx"
| "nearestScan sample (node # rest) idx nearestIdx nearestDist =
     (let d = hypot (vec_x (tn_point node) - vec_x sample) (vec_y (tn_point node) - vec_y sample)
      in if (case nearestDist of None \<Rightarrow> True | Some nd \<Rightarrow> d < nd)
         then nearestScan sample rest (Suc idx) idx (Some d)
         else nearestScan sample rest (Suc idx) nearestIdx nearestDist)"

definition nearestIndex :: "Vec2 \<Rightarrow> TreeNode list \<Rightarrow> nat" where
  "nearestIndex sample tree = nearestScan sample tree 0 0 None"

definition steer :: "Vec2 \<Rightarrow> Vec2 \<Rightarrow> Vec2" where
  "steer nearest sample =
     (let angle = atan2 (vec_y sample - vec_y nearest) (vec_x sample - vec_x nearest)
      in \<lparr>vec_x = vec_x nearest + cos angle * stepSize,
          vec_y = vec_y nearest + sin angle * stepSize\<rparr>)"

text \<open>Path reconstruction, \<^verbatim>\<open>while (tree[idx].parent !== -1)\<close>: each parent's point is
  put in front of the path. An index outside the tree is a \<^verbatim>\<open>TypeError\<close> in the source
  and a parent chain with a cycle never ends; both are \<open>None\<close>.\<close>

partial_function (option) walkParents :: "TreeNode list \<Rightarrow> nat \<Rightarrow> Vec2 list \<Rightarrow> Vec2 list option" where
  "walkParents tree idx path =
     (if idx < length tree then
        (if tn_parent (tree ! idx) \<noteq> - 1 then
           (if 0 \<le> tn_parent (tree ! idx) \<and> nat (tn_parent (tree ! idx)) < length tree
            then walkParents tree (nat (tn_parent (tree ! idx)))
                   (tn_point (tree ! nat (tn_parent (tree ! idx))) # path)
            else None)
         else Some path)
      else None)"

text \<open>The main loop of \<^verbatim>\<open>rrt\<close>. \<open>i\<close> is the loop counter and \<open>k\<close> the cursor into the
  random stream. The tree is never empty: it starts with the root and only grows.\<close>

function rrtLoop ::
  "Vec2 \<Rightarrow> Obstacle list \<Rightarrow> real \<Rightarrow> real \<Rightarrow> (nat \<Rightarrow> real) \<Rightarrow> nat \<Rightarrow> nat
     \<Rightarrow> TreeNode list \<Rightarrow> TreeEdge list \<Rightarrow> RrtResult option" where
  "rrtLoop goal obstacles canvasWidth canvasHeight rnd i k tree treeEdges =
     (if i < maxIterations then
        (let sample = fst (rrtSample goal canvasWidth canvasHeight rnd k);
             k' = snd (rrtSample goal canvasWidth canvasHeight rnd k);
             nearestIdx = nearestIndex sample tree;
             nearest = tn_point (tree ! nearestIdx);
             newPoint = steer nearest sample
         in if \<not> hasLineOfSight nearest newPoint obstacles
            then rrtLoop goal obstacles canvasWidth canvasHeight rnd (Suc i) k' tree treeEdges
            else if vec_x newPoint < 0 \<or> vec_x newPoint > canvasWidth \<or>
                    vec_y newPoint < 0 \<or> vec_y newPoint > canvasHeight
            then rrtLoop goal obstacles canvasWidth canvasHeight rnd (Suc i) k' tree treeEdges
            else if hypot (vec_x newPoint - vec_x goal) (vec_y newPoint - vec_y goal) < stepSize
            then map_option
                   (\<lambda>path. \<lparr>rr_path = path,
                            rr_tree = treeEdges @ [\<lparr>edge_from = nearest, edge_to = newPoint\<rparr>],
                            rr_nodesExplored = Suc (length tree)\<rparr>)
                   (walkParents (tree @ [\<lparr>tn_point = newPoint, tn_parent = int nearestIdx\<rparr>])
                      (length tree) [goal, newPoint])
            else rrtLoop goal obstacles canvasWidth canvasHeight rnd (Suc i) k'
                   (tree @ [\<lparr>tn_point = newPoint, tn_parent = int nearestIdx\<rparr>])
                   (treeEdges @ [\<lparr>edge_from = nearest, edge_to = newPoint\<rparr>]))
      else Some \<lparr>rr_path = [], rr_tree = treeEdges, rr_nodesExplored = length tree\<rparr>)"
  by pat_completeness auto
termination
  by (relation "measure (\<lambda>(goal, obstacles, w, h, rnd, i, k, tree, treeEdges). maxIterations - i)")
     auto

declare rrtLoop.simps [simp del]

definition rrt ::
  "Vec2 \<Rightarrow> Vec2 \<Rightarrow> Obstacle list \<Rightarrow> real \<Rightarrow> real \<Rightarrow> (nat \<Rightarrow> real) \<Rightarrow> RrtResult option" where
  "rrt start goal obstacles canvasWidth canvasHeight rnd =
     rrtLoop goal obstacles canvasWidth canvasHeight rnd 0 0
       [\<lparr>tn_point = start, tn_parent = - 1\<rparr>] []"

subsection \<open>The grid planner\<close>

text \<open>A search node. The parent link is the parent node itself: a node becomes a parent
  only when it is taken from the open set, and the source never writes to a node after
  that, so the value is the object the source refers to.\<close>

datatype PathNode =
  PathNode (pn_x: int) (pn_y: int) (pn_g: real) (pn_h: real) (pn_f: real)
    (pn_parent: "PathNode option")

definition heuristic :: "int \<times> int \<Rightarrow> int \<times> int \<Rightarrow> real" where
  "heuristic a b =
     (let dx = \<bar>real_of_int (fst a - fst b)\<bar>;
          dy = \<bar>real_of_int (snd a - snd b)\<bar>
      in max dx dy + (sqrt 2 - 1) * min dx dy)"

text \<open>The eight moves, each with its cost.\<close>

definition directions :: "(int \<times> int \<times> real) list" where
  "directions =
     [(1, 0, 1), (- 1, 0, 1), (0, 1, 1), (0, - 1, 1),
      (1, 1, sqrt 2), (- 1, 1, sqrt 2), (1, - 1, sqrt 2), (- 1, - 1, sqrt 2)]"

definition inflation :: int where
  "inflation = \<lceil>DRONE_RADIUS / GRID_SIZE\<rceil>"

text \<open>The cells an obstacle occupies: the two nested loops from \<open>minGx\<close> to \<open>maxGx\<close> and
  from \<open>minGy\<close> to \<open>maxGy\<close>. The string keys \<^verbatim>\<open>`${gx},${gy}`\<close> of the source are pairs
  of integers here.\<close>

definition occupiedCells :: "Obstacle \<Rightarrow> (int \<times> int) set" where
  "occupiedCells obs =
     {\<lfloor>(ob_x obs - real_of_int inflation * GRID_SIZE) / GRID_SIZE\<rfloor> ..
      \<lceil>(ob_x obs + ob_width obs + real_of_int inflation * GRID_SIZE) / GRID_SIZE\<rceil>}
     \<times>
     {\<lfloor>(ob_y obs - real_of_int inflation * GRID_SIZE) / GRID_SIZE\<rfloor> ..
      \<lceil>(ob_y obs + ob_height obs + real_of_int inflation * GRID_SIZE) / GRID_SIZE\<rceil>}"

definition occupied :: "Obstacle list \<Rightarrow> (int \<times> int) set" where
  "occupied obstacles = (\<Union>obs \<in> set obstacles. occupiedCells obs)"

text \<open>Assignment to the fields of the first node that satisfies \<open>P\<close>, the node that
  \<^verbatim>\<open>openSet.find\<close> returns.\<close>

fun mutateFirst :: "('a \<Rightarrow> bool) \<Rightarrow> ('a \<Rightarrow> 'a) \<Rightarrow> 'a list \<Rightarrow> 'a list" where
  "mutateFirst P upd [] = []"
| "mutateFirst P upd (n # ns) = (if P n then upd n # ns else n # mutateFirst P upd ns)"

text \<open>The body of \<^verbatim>\<open>for (const dir of directions)\<close>: the open set after one neighbour
  was looked at.\<close>

definition expandDir ::
  "int \<Rightarrow> int \<Rightarrow> (int \<times> int) set \<Rightarrow> (int \<times> int) set \<Rightarrow> int \<times> int \<Rightarrow> PathNode
     \<Rightarrow> PathNode list \<Rightarrow> int \<times> int \<times> real \<Rightarrow> PathNode list" where
  "expandDir gridW gridH occ closedSet goalNode current openSet dir =
     (let nx = pn_x current + fst dir;
          ny = pn_y current + fst (snd dir)
      in if nx < 0 \<or> nx \<ge> gridW \<or> ny < 0 \<or> ny \<ge> gridH then openSet
         else if (nx, ny) \<in> closedSet then openSet
         else if (nx, ny) \<in> occ then openSet
         else
           (let g = pn_g current + snd (snd dir);
                h = heuristic (nx, ny) goalNode;
                f = g + h
            in case find (\<lambda>n. pn_x n = nx \<and> pn_y n = ny) openSet of
                 Some existing \<Rightarrow>
                   if g < pn_g existing
                   then mutateFirst (\<lambda>n. pn_x n = nx \<and> pn_y n = ny)
                          (\<lambda>n. PathNode (pn_x n) (pn_y n) g (pn_h n) f (Some current)) openSet
                   else openSet
               | None \<Rightarrow> openSet @ [PathNode nx ny g h f (Some current)]))"

text \<open>The search ends: every push takes a cell of the grid that is neither closed nor
  open, and every round moves one node from the open set to the closed set.\<close>

definition cellsOf :: "PathNode list \<Rightarrow> (int \<times> int) set" where
  "cellsOf ns = (\<lambda>n. (pn_x n, pn_y n)) ` set ns"

definition unseen :: "int \<Rightarrow> int \<Rightarrow> (int \<times> int) set \<Rightarrow> PathNode list \<Rightarrow> (int \<times> int) set" where
  "unseen gridW gridH closedSet openSet =
     ({0..<gridW} \<times> {0..<gridH}) - closedSet - cellsOf openSet"

definition searchMeasure :: "int \<Rightarrow> int \<Rightarrow> (int \<times> int) set \<Rightarrow> PathNode list \<Rightarrow> nat" where
  "searchMeasure gridW gridH closedSet openSet =
     2 * card (unseen gridW gridH closedSet openSet) + length openSet"

lemma finite_unseen: "finite (unseen gridW gridH closedSet openSet)"
  by (simp add: unseen_def)

lemma length_mutateFirst [simp]: "length (mutateFirst P upd ns) = length ns"
  by (induction ns) auto

lemma cellsOf_mutateFirst:
  "(\<And>n. (pn_x (upd n), pn_y (upd n)) = (pn_x n, pn_y n)) \<Longrightarrow>
     cellsOf (mutateFirst P upd ns) = cellsOf ns"
  by (induction ns) (auto simp: cellsOf_def)

lemma find_None_cell:
  "find (\<lambda>n. pn_x n = nx \<and> pn_y n = ny) openSet = None \<Longrightarrow> (nx, ny) \<notin> cellsOf openSet"
  by (auto simp: find_None_iff cellsOf_def)

lemma expandDir_measure:
  "searchMeasure gridW gridH closedSet
      (expandDir gridW gridH occ closedSet goalNode current openSet dir)
     \<le> searchMeasure gridW gridH closedSet openSet"
proof -
  define nx where "nx = pn_x current + fst dir"
  define ny where "ny = pn_y current + fst (snd dir)"
  define new where "new = PathNode nx ny (pn_g current + snd (snd dir))
      (heuristic (nx, ny) goalNode)
      (pn_g current + snd (snd dir) + heuristic (nx, ny) goalNode) (Some current)"
  consider
    (same) "expandDir gridW gridH occ closedSet goalNode current openSet dir = openSet"
  | (mutated) P upd where
      "expandDir gridW gridH occ closedSet goalNode current openSet dir
         = mutateFirst P upd openSet"
      "\<And>n. (pn_x (upd n), pn_y (upd n)) = (pn_x n, pn_y n)"
  | (pushed) "expandDir gridW gridH occ closedSet goalNode current openSet dir
         = openSet @ [new]"
      "(nx, ny) \<in> unseen gridW gridH closedSet openSet"
  proof (cases "nx < 0 \<or> nx \<ge> gridW \<or> ny < 0 \<or> ny \<ge> gridH \<or> (nx, ny) \<in> closedSet
      \<or> (nx, ny) \<in> occ")
    case True
    then have "expandDir gridW gridH occ closedSet goalNode current openSet dir = openSet"
      by (auto simp: expandDir_def Let_def nx_def ny_def)
    then show ?thesis by (rule same)
  next
    case False
    show ?thesis
    proof (cases "find (\<lambda>n. pn_x n = nx \<and> pn_y n = ny) openSet")
      case None
      with False have "expandDir gridW gridH occ closedSet goalNode current openSet dir
         = openSet @ [new]"
        by (auto simp: expandDir_def Let_def nx_def ny_def new_def)
      moreover from False find_None_cell [OF None]
      have "(nx, ny) \<in> unseen gridW gridH closedSet openSet"
        by (auto simp: unseen_def)
      ultimately show ?thesis by (rule pushed)
    next
      case (Some existing)
      show ?thesis
      proof (cases "pn_g current + snd (snd dir) < pn_g existing")
        case True
        with False Some
        have "expandDir gridW gridH occ closedSet goalNode current openSet dir
          = mutateFirst (\<lambda>n. pn_x n = nx \<and> pn_y n = ny)
              (\<lambda>n. PathNode (pn_x n) (pn_y n) (pn_g current + snd (snd dir)) (pn_h n)
                 (pn_g current + snd (snd dir) + heuristic (nx, ny) goalNode) (Some current))
              openSet"
          by (auto simp: expandDir_def Let_def nx_def ny_def)
        then show ?thesis by (rule mutated) simp
      next
        case nless: False
        with False Some
        have "expandDir gridW gridH occ closedSet goalNode current openSet dir = openSet"
          by (auto simp: expandDir_def Let_def nx_def ny_def)
        then show ?thesis by (rule same)
      qed
    qed
  qed
  then show ?thesis
  proof cases
    case same
    then show ?thesis by simp
  next
    case (mutated P upd)
    then show ?thesis
      by (simp add: searchMeasure_def unseen_def cellsOf_mutateFirst)
  next
    case pushed
    have "unseen gridW gridH closedSet (openSet @ [new])
        = unseen gridW gridH closedSet openSet - {(nx, ny)}"
      by (auto simp: unseen_def cellsOf_def new_def)
    with pushed(2) have "card (unseen gridW gridH closedSet (openSet @ [new]))
        = card (unseen gridW gridH closedSet openSet) - 1"
      by (simp add: finite_unseen)
    moreover from pushed(2) have "0 < card (unseen gridW gridH closedSet openSet)"
      using finite_unseen [of gridW gridH closedSet openSet] by (auto simp: card_gt_0_iff)
    ultimately show ?thesis
      unfolding pushed(1) searchMeasure_def by simp
  qed
qed

lemma foldl_expandDir_measure:
  "searchMeasure gridW gridH closedSet
      (foldl (expandDir gridW gridH occ closedSet goalNode current) openSet dirs)
     \<le> searchMeasure gridW gridH closedSet openSet"
proof (induction dirs arbitrary: openSet)
  case Nil
  show ?case by simp
next
  case (Cons dir dirs)
  have "searchMeasure gridW gridH closedSet
      (foldl (expandDir gridW gridH occ closedSet goalNode current) openSet (dir # dirs))
    \<le> searchMeasure gridW gridH closedSet
        (expandDir gridW gridH occ closedSet goalNode current openSet dir)"
    using Cons.IH by simp
  also have "\<dots> \<le> searchMeasure gridW gridH closedSet openSet"
    by (rule expandDir_measure)
  finally show ?case .
qed

lemma pop_measure:
  assumes "openSet \<noteq> []"
  shows "searchMeasure gridW gridH
           (insert (pn_x (hd (sort_key pn_f openSet)), pn_y (hd (sort_key pn_f openSet))) closedSet)
           (tl (sort_key pn_f openSet))
         < searchMeasure gridW gridH closedSet openSet"
proof -
  define sorted where "sorted = sort_key pn_f openSet"
  have len: "length sorted = length openSet" and st: "set sorted = set openSet"
    by (simp_all add: sorted_def)
  from assms len have ne: "sorted \<noteq> []" by auto
  have "set openSet = insert (hd sorted) (set (tl sorted))"
    unfolding st [symmetric] using ne by (cases sorted) auto
  then have "cellsOf openSet = insert (pn_x (hd sorted), pn_y (hd sorted)) (cellsOf (tl sorted))"
    by (simp add: cellsOf_def)
  then have "unseen gridW gridH (insert (pn_x (hd sorted), pn_y (hd sorted)) closedSet) (tl sorted)
      = unseen gridW gridH closedSet openSet"
    by (auto simp: unseen_def)
  moreover have "length (tl sorted) < length openSet"
    using ne len by (cases sorted) auto
  ultimately show ?thesis
    unfolding searchMeasure_def sorted_def [symmetric] by simp
qed

text \<open>The main loop. The sort is stable, as \<^verbatim>\<open>Array.prototype.sort\<close> is. The result is
  the node at which the goal cell was reached, if any, and the number of nodes taken from
  the open set.\<close>

function astarLoop ::
  "int \<Rightarrow> int \<Rightarrow> (int \<times> int) set \<Rightarrow> int \<times> int \<Rightarrow> PathNode list \<Rightarrow> (int \<times> int) set \<Rightarrow> nat
     \<Rightarrow> PathNode option \<times> nat" where
  "astarLoop gridW gridH occ goalNode openSet closedSet nodesExplored =
     (if openSet \<noteq> [] then
        (let current = hd (sort_key pn_f openSet);
             rest = tl (sort_key pn_f openSet)
         in if pn_x current = fst goalNode \<and> pn_y current = snd goalNode
            then (Some current, nodesExplored + 1)
            else astarLoop gridW gridH occ goalNode
                   (foldl (expandDir gridW gridH occ
                             (insert (pn_x current, pn_y current) closedSet) goalNode current)
                      rest directions)
                   (insert (pn_x current, pn_y current) closedSet)
                   (nodesExplored + 1))
      else (None, nodesExplored))"
  by pat_completeness auto
termination
proof (relation "measure (\<lambda>(gridW, gridH, occ, goalNode, openSet, closedSet, n).
    searchMeasure gridW gridH closedSet openSet)")
  fix gridW gridH :: int and occ :: "(int \<times> int) set" and goalNode :: "int \<times> int"
    and openSet :: "PathNode list" and closedSet :: "(int \<times> int) set" and nodesExplored :: nat
    and current :: PathNode and rest :: "PathNode list"
  assume ne: "openSet \<noteq> []"
    and cur: "current = hd (sort_key pn_f openSet)"
    and rest: "rest = tl (sort_key pn_f openSet)"
  have "searchMeasure gridW gridH (insert (pn_x current, pn_y current) closedSet)
      (foldl (expandDir gridW gridH occ (insert (pn_x current, pn_y current) closedSet)
                goalNode current) rest directions)
    \<le> searchMeasure gridW gridH (insert (pn_x current, pn_y current) closedSet) rest"
    by (rule foldl_expandDir_measure)
  also have "\<dots> < searchMeasure gridW gridH closedSet openSet"
    unfolding cur rest by (rule pop_measure [OF ne])
  finally show "((gridW, gridH, occ, goalNode,
      foldl (expandDir gridW gridH occ (insert (pn_x current, pn_y current) closedSet)
               goalNode current) rest directions,
      insert (pn_x current, pn_y current) closedSet, nodesExplored + 1),
     gridW, gridH, occ, goalNode, openSet, closedSet, nodesExplored)
    \<in> measure (\<lambda>(gridW, gridH, occ, goalNode, openSet, closedSet, n).
         searchMeasure gridW gridH closedSet openSet)"
    by simp
qed simp

declare astarLoop.simps [simp del]

text \<open>\<^verbatim>\<open>Math.round\<close> rounds halves up.\<close>

definition jsRound :: "real \<Rightarrow> int" where
  "jsRound v = \<lfloor>v + 1 / 2\<rfloor>"

definition astarSearch ::
  "Vec2 \<Rightarrow> Vec2 \<Rightarrow> Obstacle list \<Rightarrow> real \<Rightarrow> real \<Rightarrow> PathNode option \<times> nat" where
  "astarSearch start goal obstacles canvasWidth canvasHeight =
     (let gridW = \<lceil>canvasWidth / GRID_SIZE\<rceil>;
          gridH = \<lceil>canvasHeight / GRID_SIZE\<rceil>;
          sx = jsRound (vec_x start / GRID_SIZE);
          sy = jsRound (vec_y start / GRID_SIZE);
          goalNode = (jsRound (vec_x goal / GRID_SIZE), jsRound (vec_y goal / GRID_SIZE));
          startNode = PathNode sx sy 0 (heuristic (sx, sy) goalNode)
                        (heuristic (sx, sy) goalNode) None
      in astarLoop gridW gridH (occupied obstacles) goalNode [startNode] {} 0)"

text \<open>Path reconstruction: the waypoints of the parent chain, the root first.\<close>

fun reconstruct :: "PathNode \<Rightarrow> Vec2 list" where
  "reconstruct (PathNode nx ny g h f None) =
     [\<lparr>vec_x = real_of_int nx * GRID_SIZE, vec_y = real_of_int ny * GRID_SIZE\<rparr>]"
| "reconstruct (PathNode nx ny g h f (Some p)) =
     reconstruct p @ [\<lparr>vec_x = real_of_int nx * GRID_SIZE, vec_y = real_of_int ny * GRID_SIZE\<rparr>]"

record AstarResult =
  ar_path :: "Vec2 list"
  ar_nodesExplored :: nat

text \<open>The raw path is smoothed as the search returns it.\<close>

definition astar :: "Vec2 \<Rightarrow> Vec2 \<Rightarrow> Obstacle list \<Rightarrow> real \<Rightarrow> real \<Rightarrow> AstarResult" where
  "astar start goal obstacles canvasWidth canvasHeight =
     (case astarSearch start goal obstacles canvasWidth canvasHeight of
        (Some node, nodesExplored) \<Rightarrow>
          \<lparr>ar_path = smoothPath (reconstruct node) obstacles, ar_nodesExplored = nodesExplored\<rparr>
      | (None, nodesExplored) \<Rightarrow> \<lparr>ar_path = [], ar_nodesExplored = nodesExplored\<rparr>)"

subsection \<open>The simulation state\<close>

datatype NavState = Idle | Planning | Navigating | Avoiding | Landing

datatype AlgorithmMode = Astar | Rrt | Apf

record Drone =
  dr_x :: real
  dr_y :: real
  dr_vx :: real
  dr_vy :: real
  dr_heading :: real
  dr_targetHeading :: real
  dr_rotorSpeed :: real
  dr_rotorAngle :: real
  dr_altitude :: real
  dr_battery :: real
  dr_state :: NavState

text \<open>The shared state \<^verbatim>\<open>stateRef.current\<close>, without the mouse position. The drone is set
  before any handler runs.\<close>

record SimState =
  st_drone :: Drone
  st_target :: "Vec2 option"
  st_path :: "Vec2 list"
  st_currentPathIndex :: nat
  st_obstacles :: "Obstacle list"
  st_lidarData :: "LidarRay list"
  st_potentialField :: "real list list"
  st_rrtTree :: "TreeEdge list"

definition dronePos :: "Drone \<Rightarrow> Vec2" where
  "dronePos d = \<lparr>vec_x = dr_x d, vec_y = dr_y d\<rparr>"

subsection \<open>Goal requests\<close>

definition nearObstacle :: "real \<Rightarrow> Vec2 \<Rightarrow> Obstacle \<Rightarrow> bool" where
  "nearObstacle clickMargin p obs \<longleftrightarrow>
     vec_x p > ob_x obs - clickMargin \<and> vec_x p < ob_x obs + ob_width obs + clickMargin \<and>
     vec_y p > ob_y obs - clickMargin \<and> vec_y p < ob_y obs + ob_height obs + clickMargin"

text \<open>The body of \<^verbatim>\<open>for (const candidate of candidates)\<close>; the state is the best candidate
  and its distance, \<open>None\<close> for \<^verbatim>\<open>null\<close> and for \<^verbatim>\<open>Infinity\<close>.\<close>

definition candidateStep ::
  "Obstacle list \<Rightarrow> real \<Rightarrow> real \<Rightarrow> Vec2 \<Rightarrow> Vec2 option \<times> real option \<Rightarrow> Vec2
     \<Rightarrow> Vec2 option \<times> real option" where
  "candidateStep obstacles canvasWidth canvasHeight clickPos best candidate =
     (if vec_x candidate < 10 \<or> vec_x candidate > canvasWidth - 10 \<or>
         vec_y candidate < 10 \<or> vec_y candidate > canvasHeight - 10 then best
      else if list_ex (nearObstacle 15 candidate) obstacles then best
      else
        (let dist = hypot (vec_x candidate - vec_x clickPos) (vec_y candidate - vec_y clickPos)
         in if (case snd best of None \<Rightarrow> True | Some bestDist \<Rightarrow> dist < bestDist)
            then (Some candidate, Some dist) else best))"

text \<open>The effective goal of a click: the click itself when it is near no obstacle, else the
  nearest valid candidate beside the first obstacle it is near, or \<open>None\<close> when the handler
  returns without a change.\<close>

definition resolveClick :: "Obstacle list \<Rightarrow> real \<Rightarrow> real \<Rightarrow> Vec2 \<Rightarrow> Vec2 option" where
  "resolveClick obstacles canvasWidth canvasHeight clickPos =
     (case find (nearObstacle 15 clickPos) obstacles of
        None \<Rightarrow> Some clickPos
      | Some obs \<Rightarrow>
          fst (foldl (candidateStep obstacles canvasWidth canvasHeight clickPos) (None, None)
            [\<lparr>vec_x = ob_x obs - 15 - 5, vec_y = vec_y clickPos\<rparr>,
             \<lparr>vec_x = ob_x obs + ob_width obs + 15 + 5, vec_y = vec_y clickPos\<rparr>,
             \<lparr>vec_x = vec_x clickPos, vec_y = ob_y obs - 15 - 5\<rparr>,
             \<lparr>vec_x = vec_x clickPos, vec_y = ob_y obs + ob_height obs + 15 + 5\<rparr>]))"

text \<open>The end of the handler, after the planner of the selected mode has set the path.\<close>

definition finishClick :: "AlgorithmMode \<Rightarrow> SimState \<Rightarrow> SimState" where
  "finishClick algorithmMode s =
     (let s' = s\<lparr>st_currentPathIndex := 0,
                 st_drone := (st_drone s)\<lparr>dr_state :=
                   (if length (st_path s) > 0 then Navigating else Idle)\<rparr>\<rparr>
      in if length (st_path s') = 0 \<and> algorithmMode \<noteq> Apf
         then s'\<lparr>st_target := None\<rparr> else s')"

text \<open>The click handler. \<open>clickPos\<close> is the click in canvas coordinates. The result is
  \<open>None\<close> when the handler does not return (a planner that fails to return).\<close>

definition onClick ::
  "AlgorithmMode \<Rightarrow> real \<Rightarrow> real \<Rightarrow> (nat \<Rightarrow> real) \<Rightarrow> Vec2 \<Rightarrow> SimState \<Rightarrow> SimState option" where
  "onClick algorithmMode canvasWidth canvasHeight rnd clickPos s =
     (case resolveClick (st_obstacles s) canvasWidth canvasHeight clickPos of
        None \<Rightarrow> Some s
      | Some goal \<Rightarrow>
          (let s1 = s\<lparr>st_target := Some goal,
                      st_drone := (st_drone s)\<lparr>dr_state := Planning\<rparr>\<rparr>;
               start = dronePos (st_drone s)
           in case algorithmMode of
                Astar \<Rightarrow>
                  (let result = astar start goal (st_obstacles s) canvasWidth canvasHeight;
                       path = (if length (ar_path result) = 0
                                  \<and> hasLineOfSight start goal (st_obstacles s)
                               then [start, goal] else ar_path result)
                   in Some (finishClick algorithmMode (s1\<lparr>st_path := path, st_rrtTree := []\<rparr>)))
              | Rrt \<Rightarrow>
                  (case rrt start goal (st_obstacles s) canvasWidth canvasHeight rnd of
                     None \<Rightarrow> None
                   | Some result \<Rightarrow>
                       Some (finishClick algorithmMode
                         (s1\<lparr>st_path := rr_path result, st_rrtTree := rr_tree result\<rparr>)))
              | Apf \<Rightarrow>
                  Some (finishClick algorithmMode
                    (s1\<lparr>st_path := [goal],
                        st_potentialField :=
                          computePotentialField goal (st_obstacles s) canvasWidth canvasHeight\<rparr>))))"

subsection \<open>Obstacle generation\<close>

datatype StaticType = Building | Tree | Tower | Container | Helipad

record StaticTypeInfo =
  sti_type :: StaticType
  sti_minW :: real
  sti_maxW :: real
  sti_minH :: real
  sti_maxH :: real
  sti_weight :: real

definition staticTypes :: "StaticTypeInfo list" where
  "staticTypes =
     [\<lparr>sti_type = Building, sti_minW = 25, sti_maxW = 40, sti_minH = 25, sti_maxH = 40,
        sti_weight = 0.3\<rparr>,
      \<lparr>sti_type = Tree, sti_minW = 10, sti_maxW = 15, sti_minH = 10, sti_maxH = 15,
        sti_weight = 0.25\<rparr>,
      \<lparr>sti_type = Tower, sti_minW = 15, sti_maxW = 20, sti_minH = 15, sti_maxH = 20,
        sti_weight = 0.15\<rparr>,
      \<lparr>sti_type = Container, sti_minW = 15, sti_maxW = 25, sti_minH = 10, sti_maxH = 12,
        sti_weight = 0.2\<rparr>,
      \<lparr>sti_type = Helipad, sti_minW = 22, sti_maxW = 28, sti_minH = 22, sti_maxH = 28,
        sti_weight = 0.1\<rparr>]"

definition totalWeight :: real where
  "totalWeight = foldl (\<lambda>sum t. sum + sti_weight t) 0 staticTypes"

text \<open>The loop of \<^verbatim>\<open>selectStaticType\<close>; when it runs to its end the first type is
  returned.\<close>

fun selectFrom :: "real \<Rightarrow> StaticTypeInfo list \<Rightarrow> StaticTypeInfo" where
  "selectFrom rand [] = staticTypes ! 0"
| "selectFrom rand (st # rest) =
     (if rand - sti_weight st \<le> 0 then st else selectFrom (rand - sti_weight st) rest)"

definition selectStaticType :: "real \<Rightarrow> StaticTypeInfo" where
  "selectStaticType r = selectFrom (r * totalWeight) staticTypes"

text \<open>The draws that choose the colour and the visual height of a static obstacle; the
  values are cosmetic, only their number matters.\<close>

definition cosmeticDraws :: "StaticType \<Rightarrow> nat" where
  "cosmeticDraws t = (case t of Building \<Rightarrow> 2 | Tower \<Rightarrow> 1 | Tree \<Rightarrow> 1 | Container \<Rightarrow> 1
     | Helipad \<Rightarrow> 0)"

definition gapOverlap :: "real \<Rightarrow> real \<Rightarrow> real \<Rightarrow> real \<Rightarrow> real \<Rightarrow> Obstacle \<Rightarrow> bool" where
  "gapOverlap minGap px py w h obs \<longleftrightarrow>
     px < ob_x obs + ob_width obs + minGap \<and> px + w + minGap > ob_x obs \<and>
     py < ob_y obs + ob_height obs + minGap \<and> py + h + minGap > ob_y obs"

text \<open>The placement state: the obstacles so far, the number of static obstacles placed
  and the cursor into the random stream.\<close>

type_synonym placement = "Obstacle list \<times> nat \<times> nat"

text \<open>The body of the inner loop over the grid cells for the cell at \<open>row\<close>, \<open>col\<close>.\<close>

definition placeCell ::
  "(nat \<Rightarrow> real) \<Rightarrow> real \<Rightarrow> real \<Rightarrow> real \<Rightarrow> real \<Rightarrow> nat \<Rightarrow> nat \<Rightarrow> placement \<Rightarrow> placement" where
  "placeCell rnd canvasWidth canvasHeight cellWidth cellHeight row col st =
     (let margin = 60; minGap = 50;
          obstacles = fst st; staticIndex = fst (snd st); k = snd (snd st);
          cellCenterX = margin + real col * cellWidth + cellWidth / 2;
          cellCenterY = margin + real row * cellHeight + cellHeight / 2
      in if cellCenterX < 120 \<and> \<bar>cellCenterY - canvasHeight / 2\<bar> < 100 then st
         else
           (let typeInfo = selectStaticType (rnd k);
                w = sti_minW typeInfo + rnd (k + 1) * (sti_maxW typeInfo - sti_minW typeInfo);
                h = sti_minH typeInfo + rnd (k + 2) * (sti_maxH typeInfo - sti_minH typeInfo);
                maxJitterX = max 0 ((cellWidth - w - minGap * 2) / 2);
                maxJitterY = max 0 ((cellHeight - h - minGap * 2) / 2);
                jitterX = (rnd (k + 3) - 0.5) * 2 * maxJitterX;
                jitterY = (rnd (k + 4) - 0.5) * 2 * maxJitterY;
                px = margin + real col * cellWidth + (cellWidth - w) / 2 + jitterX;
                py = margin + real row * cellHeight + (cellHeight - h) / 2 + jitterY;
                finalX = max margin (min (canvasWidth - margin - w) px);
                finalY = max margin (min (canvasHeight - margin - h) py);
                k' = k + 5 + cosmeticDraws (sti_type typeInfo)
            in if list_ex (gapOverlap minGap finalX finalY w h) obstacles
               then (obstacles, staticIndex, k')
               else (obstacles @ [\<lparr>ob_x = finalX, ob_y = finalY, ob_width = w, ob_height = h,
                                     ob_type = Static, ob_velocity = None\<rparr>],
                     staticIndex + 1, k' + 1)))"

function colLoop ::
  "(nat \<Rightarrow> real) \<Rightarrow> real \<Rightarrow> real \<Rightarrow> real \<Rightarrow> real \<Rightarrow> int \<Rightarrow> int \<Rightarrow> nat \<Rightarrow> nat \<Rightarrow> placement
     \<Rightarrow> placement" where
  "colLoop rnd canvasWidth canvasHeight cellWidth cellHeight staticCount cols row col st =
     (if int col < cols \<and> int (fst (snd st)) < staticCount
      then colLoop rnd canvasWidth canvasHeight cellWidth cellHeight staticCount cols row (col + 1)
             (placeCell rnd canvasWidth canvasHeight cellWidth cellHeight row col st)
      else st)"
  by pat_completeness auto
termination
  by (relation "measure (\<lambda>(rnd, w, h, cw, ch, staticCount, cols, row, col, st). nat (cols - int col))")
     auto

function rowLoop ::
  "(nat \<Rightarrow> real) \<Rightarrow> real \<Rightarrow> real \<Rightarrow> real \<Rightarrow> real \<Rightarrow> int \<Rightarrow> int \<Rightarrow> int \<Rightarrow> nat \<Rightarrow> placement
     \<Rightarrow> placement" where
  "rowLoop rnd canvasWidth canvasHeight cellWidth cellHeight staticCount rows cols row st =
     (if int row < rows \<and> int (fst (snd st)) < staticCount
      then rowLoop rnd canvasWidth canvasHeight cellWidth cellHeight staticCount rows cols (row + 1)
             (colLoop rnd canvasWidth canvasHeight cellWidth cellHeight staticCount cols row 0 st)
      else st)"
  by pat_completeness auto
termination
  by (relation "measure (\<lambda>(rnd, w, h, cw, ch, staticCount, rows, cols, row, st). nat (rows - int row))")
     auto

declare colLoop.simps [simp del] rowLoop.simps [simp del]

text \<open>One attempt to place a dynamic obstacle, the body of the loop
  \<^verbatim>\<open>while (!placed && attempts < 50)\<close>: the obstacles and the cursor after it, and whether
  the obstacle was placed.\<close>

definition dynamicAttempt ::
  "(nat \<Rightarrow> real) \<Rightarrow> real \<Rightarrow> real \<Rightarrow> Obstacle list \<times> nat \<Rightarrow> (Obstacle list \<times> nat) \<times> bool" where
  "dynamicAttempt rnd canvasWidth canvasHeight st =
     (let margin = 60; minGap = 50;
          obstacles = fst st; k = snd st;
          px = margin + rnd k * (canvasWidth - 2 * margin - 24);
          py = margin + rnd (k + 1) * (canvasHeight - 2 * margin - 24);
          tooCloseToStart = (px < 120 \<and> \<bar>py - canvasHeight / 2\<bar> < 80)
      in if \<not> list_ex (gapOverlap minGap px py 24 24) obstacles \<and> \<not> tooCloseToStart
         then ((obstacles @ [\<lparr>ob_x = px, ob_y = py, ob_width = 24, ob_height = 24,
                  ob_type = Dynamic,
                  ob_velocity = Some \<lparr>vec_x = (rnd (k + 2) - 0.5) * 0.6,
                                       vec_y = (rnd (k + 3) - 0.5) * 0.6\<rparr>\<rparr>], k + 6), True)
         else ((obstacles, k + 2), False))"

function placeDynamic ::
  "(nat \<Rightarrow> real) \<Rightarrow> real \<Rightarrow> real \<Rightarrow> bool \<Rightarrow> nat \<Rightarrow> Obstacle list \<times> nat \<Rightarrow> Obstacle list \<times> nat" where
  "placeDynamic rnd canvasWidth canvasHeight placed attempts st =
     (if \<not> placed \<and> attempts < 50
      then placeDynamic rnd canvasWidth canvasHeight
             (snd (dynamicAttempt rnd canvasWidth canvasHeight st)) (attempts + 1)
             (fst (dynamicAttempt rnd canvasWidth canvasHeight st))
      else st)"
  by pat_completeness auto
termination
  by (relation "measure (\<lambda>(rnd, w, h, placed, attempts, st). 50 - attempts)") auto

declare placeDynamic.simps [simp del]

text \<open>\<^verbatim>\<open>generateObstacles\<close>. The counts are whole numbers. With no static obstacle to place
  the loops over the grid do not run (and the grid size is not computed: it would be
  \<^verbatim>\<open>NaN\<close> for a negative count).\<close>

definition generateObstacles ::
  "int \<Rightarrow> nat \<Rightarrow> real \<Rightarrow> real \<Rightarrow> (nat \<Rightarrow> real) \<Rightarrow> Obstacle list" where
  "generateObstacles count dynamicCount canvasWidth canvasHeight rnd =
     (let margin = 60;
          staticCount = count - int dynamicCount;
          statics =
            (if staticCount \<le> 0 then ([], 0, 0)
             else
               (let cols = max 2 \<lceil>sqrt (real_of_int staticCount * (canvasWidth / canvasHeight) * 0.6)\<rceil>;
                    rows = max 2 \<lceil>real_of_int staticCount / real_of_int cols\<rceil>;
                    cellWidth = (canvasWidth - 2 * margin) / real_of_int cols;
                    cellHeight = (canvasHeight - 2 * margin) / real_of_int rows
                in rowLoop rnd canvasWidth canvasHeight cellWidth cellHeight staticCount rows cols
                     0 ([], 0, 0)))
      in fst (foldl (\<lambda>st i. placeDynamic rnd canvasWidth canvasHeight False 0 st)
                (fst statics, snd (snd statics)) [0..<dynamicCount]))"

subsection \<open>Dynamic obstacles\<close>

definition overlapsWithMargin :: "real \<Rightarrow> real \<Rightarrow> real \<Rightarrow> Obstacle \<Rightarrow> Obstacle \<Rightarrow> bool" where
  "overlapsWithMargin margin px py obs other \<longleftrightarrow>
     px < ob_x other + ob_width other + margin \<and>
     px + ob_width obs + margin > ob_x other \<and>
     py < ob_y other + ob_height other + margin \<and>
     py + ob_height obs + margin > ob_y other"

text \<open>The body of the second inner \<^verbatim>\<open>forEach\<close>: the velocity of obstacle \<open>i\<close> after it was
  steered away from obstacle \<open>j\<close>. \<^verbatim>\<open>other === obs\<close> compares the indices.\<close>

definition steerAway ::
  "Obstacle \<Rightarrow> real \<Rightarrow> real \<Rightarrow> Obstacle list \<Rightarrow> nat \<Rightarrow> Vec2 \<Rightarrow> nat \<Rightarrow> Vec2" where
  "steerAway obs nextX nextY obsl i velocity j =
     (let other = obsl ! j
      in if j = i \<or> ob_type other = Static then velocity
         else if overlapsWithMargin 15 nextX nextY obs other then
           (let dx = (ob_x obs + ob_width obs / 2) - (ob_x other + ob_width other / 2);
                dy = (ob_y obs + ob_height obs / 2) - (ob_y other + ob_height other / 2);
                dist = (if sqrt (dx * dx + dy * dy) = 0 then 1 else sqrt (dx * dx + dy * dy))
            in \<lparr>vec_x = vec_x velocity + (dx / dist) * 0.3,
                vec_y = vec_y velocity + (dy / dist) * 0.3\<rparr>)
         else velocity)"

definition obstacleMaxSpeed :: real where "obstacleMaxSpeed = 0.8"
definition obstacleMinSpeed :: real where "obstacleMinSpeed = 0.25"

text \<open>The speed band: the limit and the floor both test the speed measured before either
  is applied.\<close>

definition limitSpeed :: "Vec2 \<Rightarrow> Vec2" where
  "limitSpeed velocity =
     (let currentSpeed = sqrt ((vec_x velocity)\<^sup>2 + (vec_y velocity)\<^sup>2);
          v1 = (if currentSpeed > obstacleMaxSpeed
                then \<lparr>vec_x = (vec_x velocity / currentSpeed) * obstacleMaxSpeed,
                      vec_y = (vec_y velocity / currentSpeed) * obstacleMaxSpeed\<rparr>
                else velocity)
      in if currentSpeed < obstacleMinSpeed then
           (let scale = obstacleMinSpeed / (if currentSpeed = 0 then 0.1 else currentSpeed)
            in \<lparr>vec_x = vec_x v1 * scale, vec_y = vec_y v1 * scale\<rparr>)
         else v1)"

text \<open>The velocity of the dynamic obstacle at index \<open>i\<close> after it was steered away from
  the other dynamic obstacles and has bounced off static obstacles and walls, before the
  speed band is applied; with it, the cursor into the random stream after the draws.\<close>

definition bounceVelocity ::
  "(nat \<Rightarrow> real) \<Rightarrow> real \<Rightarrow> real \<Rightarrow> Obstacle list \<Rightarrow> nat \<Rightarrow> nat \<Rightarrow> Vec2 \<Rightarrow> Vec2 \<times> nat" where
  "bounceVelocity rnd canvasWidth canvasHeight obsl k i velocity =
     (let obs = obsl ! i;
          nextX = ob_x obs + vec_x velocity;
          nextY = ob_y obs + vec_y velocity;
          collisionX = list_ex (\<lambda>j. j \<noteq> i \<and> ob_type (obsl ! j) \<noteq> Dynamic \<and>
              overlapsWithMargin 8 nextX (ob_y obs) obs (obsl ! j)) [0..<length obsl];
          collisionY = list_ex (\<lambda>j. j \<noteq> i \<and> ob_type (obsl ! j) \<noteq> Dynamic \<and>
              overlapsWithMargin 8 (ob_x obs) nextY obs (obsl ! j)) [0..<length obsl];
          v1 = foldl (steerAway obs nextX nextY obsl i) velocity [0..<length obsl];
          v2 = (if collisionX
                then \<lparr>vec_x = - vec_x v1, vec_y = vec_y v1 + (rnd k - 0.5) * 0.5\<rparr>
                else v1);
          k2 = (if collisionX then k + 1 else k);
          v3 = (if collisionY
                then \<lparr>vec_x = vec_x v2 + (rnd k2 - 0.5) * 0.5, vec_y = - vec_y v2\<rparr>
                else v2);
          k3 = (if collisionY then k2 + 1 else k2);
          v4 = (if ob_x obs \<le> 0 \<or> ob_x obs + ob_width obs \<ge> canvasWidth
                then v3\<lparr>vec_x := - vec_x v3\<rparr> else v3);
          v5 = (if ob_y obs \<le> 0 \<or> ob_y obs + ob_height obs \<ge> canvasHeight
                then v4\<lparr>vec_y := - vec_y v4\<rparr> else v4)
      in (v5, k3))"

text \<open>The body of the outer \<^verbatim>\<open>forEach\<close> for the obstacle at index \<open>i\<close>. The state is the
  obstacle list, in which the obstacles before \<open>i\<close> have moved already, and the cursor into
  the random stream. Only a dynamic obstacle that has a velocity moves.\<close>

definition updateObstacle ::
  "(nat \<Rightarrow> real) \<Rightarrow> real \<Rightarrow> real \<Rightarrow> Obstacle list \<times> nat \<Rightarrow> nat \<Rightarrow> Obstacle list \<times> nat" where
  "updateObstacle rnd canvasWidth canvasHeight st i =
     (let obsl = fst st; k = snd st; obs = obsl ! i
      in case ob_velocity obs of
           None \<Rightarrow> st
         | Some velocity \<Rightarrow>
             if ob_type obs \<noteq> Dynamic then st
             else
               (let bounced = bounceVelocity rnd canvasWidth canvasHeight obsl k i velocity;
                    v = limitSpeed (fst bounced)
                in (obsl[i := obs\<lparr>
                      ob_x := max 0 (min (canvasWidth - ob_width obs) (ob_x obs + vec_x v)),
                      ob_y := max 0 (min (canvasHeight - ob_height obs) (ob_y obs + vec_y v)),
                      ob_velocity := Some v\<rparr>], snd bounced)))"

definition updateObstacles ::
  "(nat \<Rightarrow> real) \<Rightarrow> real \<Rightarrow> real \<Rightarrow> Obstacle list \<Rightarrow> Obstacle list \<times> nat" where
  "updateObstacles rnd canvasWidth canvasHeight obsl =
     foldl (updateObstacle rnd canvasWidth canvasHeight) (obsl, 0) [0..<length obsl]"

subsection \<open>The controller\<close>

definition closestObstacle :: "LidarRay list \<Rightarrow> real" where
  "closestObstacle lidarData =
     foldl (\<lambda>m ray. if ray_distance ray < m then ray_distance ray else m) LIDAR_RANGE lidarData"

definition enterAvoiding :: "real \<Rightarrow> SimState \<Rightarrow> SimState" where
  "enterAvoiding closest s =
     (if closest < SAFE_DISTANCE \<and> dr_state (st_drone s) = Navigating
      then s\<lparr>st_drone := (st_drone s)\<lparr>dr_state := Avoiding\<rparr>\<rparr> else s)"

text \<open>Steering: the field planner's force in \<^verbatim>\<open>apf\<close> mode, else the pull towards the
  waypoint under the cursor. A cursor beyond the path reads \<^verbatim>\<open>undefined\<close> and nothing is
  done.\<close>

definition steerDrone :: "AlgorithmMode \<Rightarrow> real \<Rightarrow> SimState \<Rightarrow> SimState" where
  "steerDrone algorithmMode speed s =
     (let drone = st_drone s
      in if algorithmMode = Apf then
           (case st_target s of
              None \<Rightarrow> s
            | Some target \<Rightarrow>
                (let force = apfNavigate (dronePos drone) target (st_obstacles s)
                 in s\<lparr>st_drone := drone\<lparr>dr_vx := dr_vx drone + vec_x force * 0.02 * speed,
                                         dr_vy := dr_vy drone + vec_y force * 0.02 * speed\<rparr>\<rparr>))
         else if length (st_path s) > 0 \<and> st_currentPathIndex s < length (st_path s) then
           (let targetPoint = st_path s ! st_currentPathIndex s;
                dx = vec_x targetPoint - dr_x drone;
                dy = vec_y targetPoint - dr_y drone;
                dist = hypot dx dy
            in s\<lparr>st_currentPathIndex :=
                    (if dist < 15 \<and> st_currentPathIndex s < length (st_path s) - 1
                     then st_currentPathIndex s + 1 else st_currentPathIndex s),
                  st_drone := drone\<lparr>dr_vx := dr_vx drone + dx * 0.003 * speed,
                                    dr_vy := dr_vy drone + dy * 0.003 * speed,
                                    dr_targetHeading := atan2 dy dx\<rparr>\<rparr>)
         else s)"

definition avoidRay :: "Drone \<Rightarrow> LidarRay \<Rightarrow> Drone" where
  "avoidRay drone ray =
     (if ray_distance ray < SAFE_DISTANCE then
        (let avoidForce = (SAFE_DISTANCE - ray_distance ray) / SAFE_DISTANCE
         in drone\<lparr>dr_vx := dr_vx drone - cos (ray_angle ray) * avoidForce * 0.5,
                  dr_vy := dr_vy drone - sin (ray_angle ray) * avoidForce * 0.5\<rparr>)
      else drone)"

definition avoidStep :: "real \<Rightarrow> SimState \<Rightarrow> SimState" where
  "avoidStep closest s =
     (if dr_state (st_drone s) = Avoiding then
        (let drone = foldl avoidRay (st_drone s) (st_lidarData s)
         in s\<lparr>st_drone := (if closest > SAFE_DISTANCE * 1.2
                            then drone\<lparr>dr_state := Navigating\<rparr> else drone)\<rparr>)
      else s)"

definition arrivalCheck :: "SimState \<Rightarrow> SimState" where
  "arrivalCheck s =
     (case st_target s of
        None \<Rightarrow> s
      | Some target \<Rightarrow>
          (let distToGoal = hypot (vec_x target - dr_x (st_drone s))
                                  (vec_y target - dr_y (st_drone s))
           in if distToGoal < 20
              then s\<lparr>st_drone := (st_drone s)\<lparr>dr_state := Idle\<rparr>,
                     st_target := None, st_path := []\<rparr>
              else s))"

definition navigationStep :: "AlgorithmMode \<Rightarrow> real \<Rightarrow> real \<Rightarrow> SimState \<Rightarrow> SimState" where
  "navigationStep algorithmMode speed closest s =
     (if dr_state (st_drone s) = Navigating \<or> dr_state (st_drone s) = Avoiding
      then arrivalCheck (avoidStep closest (steerDrone algorithmMode speed s))
      else s)"

text \<open>The two loops that wrap the heading difference into \<open>[-\<pi>, \<pi>]\<close>.\<close>

function wrapDown :: "real \<Rightarrow> real" where
  "wrapDown headingDiff = (if headingDiff > pi then wrapDown (headingDiff - pi * 2) else headingDiff)"
  by pat_completeness auto
termination
proof (relation "measure (\<lambda>d. nat \<lceil>d / (pi * 2)\<rceil>)")
  fix headingDiff :: real
  assume "pi < headingDiff"
  with pi_gt_zero have "0 < headingDiff" by linarith
  with pi_gt_zero have "0 < headingDiff / (pi * 2)" by simp
  then have "0 < \<lceil>headingDiff / (pi * 2)\<rceil>" by simp
  moreover have "(headingDiff - pi * 2) / (pi * 2) = headingDiff / (pi * 2) - 1"
    by (simp add: field_simps)
  ultimately show "(headingDiff - pi * 2, headingDiff) \<in> measure (\<lambda>d. nat \<lceil>d / (pi * 2)\<rceil>)"
    by simp
qed simp

function wrapUp :: "real \<Rightarrow> real" where
  "wrapUp headingDiff = (if headingDiff < - pi then wrapUp (headingDiff + pi * 2) else headingDiff)"
  by pat_completeness auto
termination
proof (relation "measure (\<lambda>d. nat \<lceil>- d / (pi * 2)\<rceil>)")
  fix headingDiff :: real
  assume "headingDiff < - pi"
  with pi_gt_zero have "0 < - headingDiff" by linarith
  with pi_gt_zero have "0 < - headingDiff / (pi * 2)"
    by (intro divide_pos_pos) simp_all
  then have pos: "0 < \<lceil>- headingDiff / (pi * 2)\<rceil>" by (simp only: zero_less_ceiling)
  have "- (headingDiff + pi * 2) / (pi * 2) = - headingDiff / (pi * 2) - 1"
    by (simp add: field_simps)
  then have step: "\<lceil>- (headingDiff + pi * 2) / (pi * 2)\<rceil> = \<lceil>- headingDiff / (pi * 2)\<rceil> - 1"
    by (simp only: ceiling_diff_one)
  have "nat \<lceil>- (headingDiff + pi * 2) / (pi * 2)\<rceil> < nat \<lceil>- headingDiff / (pi * 2)\<rceil>"
    unfolding step using pos by linarith
  then show "(headingDiff + pi * 2, headingDiff) \<in> measure (\<lambda>d. nat \<lceil>- d / (pi * 2)\<rceil>)"
    by (simp only: in_measure)
qed simp

declare wrapDown.simps [simp del] wrapUp.simps [simp del]

definition physicsUpdate :: "real \<Rightarrow> real \<Rightarrow> real \<Rightarrow> Drone \<Rightarrow> Drone" where
  "physicsUpdate speed canvasWidth canvasHeight drone =
     (let vx = dr_vx drone * 0.95;
          vy = dr_vy drone * 0.95;
          maxSpeed = 2 * speed;
          currentSpeed = hypot vx vy;
          vx' = (if currentSpeed > maxSpeed then (vx / currentSpeed) * maxSpeed else vx);
          vy' = (if currentSpeed > maxSpeed then (vy / currentSpeed) * maxSpeed else vy);
          headingDiff = wrapUp (wrapDown (dr_targetHeading drone - dr_heading drone))
      in drone\<lparr>dr_vx := vx', dr_vy := vy',
               dr_x := max DRONE_RADIUS (min (canvasWidth - DRONE_RADIUS) (dr_x drone + vx')),
               dr_y := max DRONE_RADIUS (min (canvasHeight - DRONE_RADIUS) (dr_y drone + vy')),
               dr_heading := dr_heading drone + headingDiff * 0.1,
               dr_rotorAngle := dr_rotorAngle drone + dr_rotorSpeed drone,
               dr_battery := max 0 (dr_battery drone - 0.002 * (1 + currentSpeed))\<rparr>)"

text \<open>One tick of \<^verbatim>\<open>animate\<close>: the dynamic obstacles move, the sensor sweeps, the controller
  steers and the drone moves. \<open>rnd\<close> is the stream of the tick's random draws.\<close>

definition animate ::
  "AlgorithmMode \<Rightarrow> real \<Rightarrow> real \<Rightarrow> real \<Rightarrow> (nat \<Rightarrow> real) \<Rightarrow> SimState \<Rightarrow> SimState" where
  "animate algorithmMode speed canvasWidth canvasHeight rnd s =
     (let obstacles = fst (updateObstacles rnd canvasWidth canvasHeight (st_obstacles s));
          lidarData = simulateLidar (dronePos (st_drone s)) (dr_heading (st_drone s)) obstacles
                        canvasWidth canvasHeight;
          closest = closestObstacle lidarData;
          s1 = enterAvoiding closest (s\<lparr>st_obstacles := obstacles, st_lidarData := lidarData\<rparr>);
          s2 = navigationStep algorithmMode speed closest s1
      in s2\<lparr>st_drone := physicsUpdate speed canvasWidth canvasHeight (st_drone s2)\<rparr>)"

section \<open>Notions and example configurations for the properties\<close>

text \<open>The point at distance \<open>d\<close> along a ray, and the two tests of the ray marching loop on
  it: the point is blocked when it lies outside the canvas or strictly inside an
  obstacle.\<close>

definition samplePoint :: "Vec2 \<Rightarrow> real \<Rightarrow> real \<Rightarrow> Vec2" where
  "samplePoint drone angle d =
     \<lparr>vec_x = vec_x drone + cos angle * d, vec_y = vec_y drone + sin angle * d\<rparr>"

definition blocked :: "Vec2 \<Rightarrow> Obstacle list \<Rightarrow> real \<Rightarrow> real \<Rightarrow> bool" where
  "blocked p obstacles canvasWidth canvasHeight \<longleftrightarrow>
     (vec_x p < 0 \<or> vec_x p > canvasWidth \<or> vec_y p < 0 \<or> vec_y p > canvasHeight) \<or>
     list_ex (insideObstacle (vec_x p) (vec_y p)) obstacles"

text \<open>A point on the surface of an obstacle: on its rectangle, not strictly inside.\<close>

definition onSurface :: "Vec2 \<Rightarrow> Obstacle \<Rightarrow> bool" where
  "onSurface p obs \<longleftrightarrow>
     ob_x obs \<le> vec_x p \<and> vec_x p \<le> ob_x obs + ob_width obs \<and>
     ob_y obs \<le> vec_y p \<and> vec_y p \<le> ob_y obs + ob_height obs \<and>
     \<not> insideObstacle (vec_x p) (vec_y p) obs"

text \<open>A box that begins 2 pixels ahead of a drone at (100, 100).\<close>

definition nearBox :: Obstacle where
  "nearBox = \<lparr>ob_x = 102, ob_y = 90, ob_width = 28, ob_height = 20, ob_type = Static,
     ob_velocity = None\<rparr>"

text \<open>The drone has arrived: a goal is set and the drone is within the arrival threshold.\<close>

definition arrived :: "SimState \<Rightarrow> bool" where
  "arrived s =
     (case st_target s of
        None \<Rightarrow> False
      | Some target \<Rightarrow>
          hypot (vec_x target - dr_x (st_drone s)) (vec_y target - dr_y (st_drone s)) < 20)"

text \<open>The sweep of a tick: taken from the drone's pose before it moves, against the
  obstacles after they moved.\<close>

definition tickSweep :: "real \<Rightarrow> real \<Rightarrow> (nat \<Rightarrow> real) \<Rightarrow> SimState \<Rightarrow> LidarRay list" where
  "tickSweep canvasWidth canvasHeight rnd s =
     simulateLidar (dronePos (st_drone s)) (dr_heading (st_drone s))
       (fst (updateObstacles rnd canvasWidth canvasHeight (st_obstacles s)))
       canvasWidth canvasHeight"

definition restingDrone :: Drone where
  "restingDrone = \<lparr>dr_x = 100, dr_y = 100, dr_vx = 0, dr_vy = 0, dr_heading = 0,
     dr_targetHeading = 0, dr_rotorSpeed = 0.3, dr_rotorAngle = 0, dr_altitude = 1,
     dr_battery = 100, dr_state = Navigating\<rparr>"

definition building :: Obstacle where
  "building = \<lparr>ob_x = 125, ob_y = 90, ob_width = 30, ob_height = 20, ob_type = Static,
     ob_velocity = None\<rparr>"

text \<open>A drone ten pixels short of its goal, with a building 25 pixels ahead.\<close>

definition nearGoalState :: SimState where
  "nearGoalState = \<lparr>st_drone = restingDrone,
     st_target = Some \<lparr>vec_x = 110, vec_y = 100\<rparr>,
     st_path = [\<lparr>vec_x = 100, vec_y = 100\<rparr>, \<lparr>vec_x = 110, vec_y = 100\<rparr>],
     st_currentPathIndex = 1, st_obstacles = [building], st_lidarData = [],
     st_potentialField = [], st_rrtTree = []\<rparr>"

text \<open>The same drone with the goal far beyond the building.\<close>

definition farGoalState :: SimState where
  "farGoalState = nearGoalState\<lparr>st_target := Some \<lparr>vec_x = 500, vec_y = 300\<rparr>,
     st_path := [\<lparr>vec_x = 100, vec_y = 100\<rparr>, \<lparr>vec_x = 500, vec_y = 300\<rparr>]\<rparr>"

text \<open>A drone that is avoiding, in the middle of an empty field.\<close>

definition openFieldState :: SimState where
  "openFieldState = \<lparr>st_drone = restingDrone\<lparr>dr_x := 300, dr_y := 200, dr_state := Avoiding\<rparr>,
     st_target = Some \<lparr>vec_x = 500, vec_y = 300\<rparr>,
     st_path = [\<lparr>vec_x = 100, vec_y = 100\<rparr>, \<lparr>vec_x = 500, vec_y = 300\<rparr>],
     st_currentPathIndex = 1, st_obstacles = [], st_lidarData = [],
     st_potentialField = [], st_rrtTree = []\<rparr>"

text \<open>The extension that an iteration tries from a tree towards a sample, and the test
  that rejects it.\<close>

definition extension :: "TreeNode list \<Rightarrow> Vec2 \<Rightarrow> Vec2" where
  "extension tree sample = steer (tn_point (tree ! nearestIndex sample tree)) sample"

definition rejected :: "Obstacle list \<Rightarrow> real \<Rightarrow> real \<Rightarrow> TreeNode list \<Rightarrow> Vec2 \<Rightarrow> bool" where
  "rejected obstacles canvasWidth canvasHeight tree sample \<longleftrightarrow>
     \<not> hasLineOfSight (tn_point (tree ! nearestIndex sample tree)) (extension tree sample)
         obstacles \<or>
     vec_x (extension tree sample) < 0 \<or> vec_x (extension tree sample) > canvasWidth \<or>
     vec_y (extension tree sample) < 0 \<or> vec_y (extension tree sample) > canvasHeight"

text \<open>Four walls around the goal \<open>(300, 200)\<close> on the canvas of 700 by 400; the drone
  starts at \<open>(200, 200)\<close>, outside.\<close>

definition wall :: "real \<Rightarrow> real \<Rightarrow> real \<Rightarrow> real \<Rightarrow> Obstacle" where
  "wall px py w h = \<lparr>ob_x = px, ob_y = py, ob_width = w, ob_height = h, ob_type = Static,
     ob_velocity = None\<rparr>"

definition walls :: "Obstacle list" where
  "walls = [wall 250 150 10 100, wall 340 150 10 100, wall 250 150 100 10, wall 250 240 100 10]"

definition walledGoal :: Vec2 where "walledGoal = \<lparr>vec_x = 300, vec_y = 200\<rparr>"
definition outsideStart :: Vec2 where "outsideStart = \<lparr>vec_x = 200, vec_y = 200\<rparr>"

definition grownTree :: "TreeNode list" where
  "grownTree = [\<lparr>tn_point = outsideStart, tn_parent = - 1\<rparr>,
                \<lparr>tn_point = \<lparr>vec_x = 225, vec_y = 200\<rparr>, tn_parent = 0\<rparr>]"

text \<open>The points that accepted extensions can reach from the start: each step has the
  step length, passes the line-of-sight test and ends on the canvas.\<close>

inductive rrtReachable :: "Vec2 \<Rightarrow> Obstacle list \<Rightarrow> real \<Rightarrow> real \<Rightarrow> Vec2 \<Rightarrow> bool"
  for start :: Vec2 and obstacles :: "Obstacle list" and canvasWidth canvasHeight :: real where
  root: "rrtReachable start obstacles canvasWidth canvasHeight start"
| step: "rrtReachable start obstacles canvasWidth canvasHeight p \<Longrightarrow>
         hasLineOfSight p q obstacles \<Longrightarrow>
         hypot (vec_x q - vec_x p) (vec_y q - vec_y p) = stepSize \<Longrightarrow>
         0 \<le> vec_x q \<Longrightarrow> vec_x q \<le> canvasWidth \<Longrightarrow>
         0 \<le> vec_y q \<Longrightarrow> vec_y q \<le> canvasHeight \<Longrightarrow>
         rrtReachable start obstacles canvasWidth canvasHeight q"





text \<open>A drone outside the walls of the enclosed goal.\<close>

definition walledState :: SimState where
  "walledState = \<lparr>st_drone = restingDrone\<lparr>dr_x := 200, dr_y := 200, dr_state := Idle\<rparr>,
     st_target = None, st_path = [], st_currentPathIndex = 0, st_obstacles = walls,
     st_lidarData = [], st_potentialField = [], st_rrtTree = []\<rparr>"

text \<open>A building whose inflated corner lies between the last tree node and the goal.\<close>

definition cornerBuilding :: Obstacle where
  "cornerBuilding = \<lparr>ob_x = 128, ob_y = 100, ob_width = 20, ob_height = 20, ob_type = Static,
     ob_velocity = None\<rparr>"

definition cornerStart :: Vec2 where "cornerStart = \<lparr>vec_x = 100, vec_y = 100\<rparr>"
definition cornerGoal :: Vec2 where "cornerGoal = \<lparr>vec_x = 127, vec_y = 136\<rparr>"
definition cornerNode :: Vec2 where "cornerNode = \<lparr>vec_x = 115, vec_y = 120\<rparr>"

text \<open>Four boxes that leave a pocket of 13 by 12 around the goal \<open>(321, 202)\<close>; the start
  \<open>(285, 229)\<close> lies outside, and \<open>(305, 214)\<close> is where the first extension ends.\<close>

definition pocketBoxes :: "Obstacle list" where
  "pocketBoxes = [wall 200 100 100 100, wall 319 219 100 100, wall 250 83 150 100,
     wall 337 150 100 100]"

definition pocketStart :: Vec2 where "pocketStart = \<lparr>vec_x = 285, vec_y = 229\<rparr>"
definition pocketGoal :: Vec2 where "pocketGoal = \<lparr>vec_x = 321, vec_y = 202\<rparr>"
definition pocketNode :: Vec2 where "pocketNode = \<lparr>vec_x = 305, vec_y = 214\<rparr>"

definition parentsBelow :: "TreeNode list \<Rightarrow> bool" where
  "parentsBelow tree \<longleftrightarrow>
     (\<forall>j < length tree. tn_parent (tree ! j) = - 1 \<or>
        (0 \<le> tn_parent (tree ! j) \<and> nat (tn_parent (tree ! j)) < j))"

text \<open>The clearance \<open>d\<close> that \<^verbatim>\<open>apfNavigate\<close> computes for an obstacle: the distance from the
  drone to the obstacle's centre, less half the obstacle's larger side and the drone
  radius.\<close>

definition apfClearance :: "Vec2 \<Rightarrow> Obstacle \<Rightarrow> real" where
  "apfClearance drone obs =
     hypot (vec_x drone - (ob_x obs + ob_width obs / 2))
           (vec_y drone - (ob_y obs + ob_height obs / 2))
       - max (ob_width obs) (ob_height obs) / 2 - DRONE_RADIUS"

definition magnitudeOf :: "Vec2 \<Rightarrow> real" where
  "magnitudeOf v = hypot (vec_x v) (vec_y v)"

text \<open>The repulsive magnitude at clearance \<open>d\<close>.\<close>

definition repulsion :: "real \<Rightarrow> real" where
  "repulsion d = 500 * (1 / d - 1 / 80) / (d * d)"

text \<open>A building of 20 by 20 whose clearance from the drone at \<open>(100, 100)\<close> is \<open>\<epsilon>\<close>.\<close>

definition closeBuilding :: "real \<Rightarrow> Obstacle" where
  "closeBuilding \<epsilon> = \<lparr>ob_x = 68 - \<epsilon>, ob_y = 90, ob_width = 20, ob_height = 20,
     ob_type = Static, ob_velocity = None\<rparr>"

text \<open>What generation guarantees of every obstacle: a static obstacle has no velocity, a
  dynamic obstacle is 24 by 24 and has one.\<close>

definition generated :: "Obstacle \<Rightarrow> bool" where
  "generated obs \<longleftrightarrow>
     (ob_type obs = Static \<and> ob_velocity obs = None) \<or>
     (ob_type obs = Dynamic \<and> ob_width obs = 24 \<and> ob_height obs = 24 \<and> ob_velocity obs \<noteq> None)"

text \<open>A dynamic obstacle is well formed when it has a velocity and is no larger than
  the canvas.\<close>

definition dynamicWellFormed :: "real \<Rightarrow> real \<Rightarrow> Obstacle \<Rightarrow> bool" where
  "dynamicWellFormed canvasWidth canvasHeight obs \<longleftrightarrow>
     (ob_type obs = Dynamic \<longrightarrow>
        ob_velocity obs \<noteq> None \<and> ob_width obs \<le> canvasWidth \<and> ob_height obs \<le> canvasHeight)"

text \<open>A dynamic obstacle is in bounds when its rectangle lies within the canvas and its
  speed is at most the maximum speed.\<close>

definition dynamicInBounds :: "real \<Rightarrow> real \<Rightarrow> Obstacle \<Rightarrow> bool" where
  "dynamicInBounds canvasWidth canvasHeight obs \<longleftrightarrow>
     (ob_type obs = Dynamic \<longrightarrow>
        0 \<le> ob_x obs \<and> ob_x obs + ob_width obs \<le> canvasWidth \<and>
        0 \<le> ob_y obs \<and> ob_y obs + ob_height obs \<le> canvasHeight \<and>
        (case ob_velocity obs of
           None \<Rightarrow> False
         | Some v \<Rightarrow> sqrt ((vec_x v)\<^sup>2 + (vec_y v)\<^sup>2) \<le> obstacleMaxSpeed))"

text \<open>A run of \<open>n\<close> ticks; \<open>rnds t\<close> is the stream of the random draws of tick \<open>t\<close>.\<close>

fun simulate ::
  "AlgorithmMode \<Rightarrow> real \<Rightarrow> real \<Rightarrow> real \<Rightarrow> (nat \<Rightarrow> nat \<Rightarrow> real) \<Rightarrow> nat \<Rightarrow> SimState \<Rightarrow> SimState" where
  "simulate algorithmMode speed canvasWidth canvasHeight rnds 0 s = s"
| "simulate algorithmMode speed canvasWidth canvasHeight rnds (Suc n) s =
     animate algorithmMode speed canvasWidth canvasHeight (rnds n)
       (simulate algorithmMode speed canvasWidth canvasHeight rnds n s)"



text \<open>An 8-connected path is a list of moves of the planner; it leads from a cell to the
  cell that \<open>followMoves\<close> computes, at the cost that \<open>movesCost\<close> adds up.\<close>

fun followMoves :: "int \<times> int \<Rightarrow> (int \<times> int \<times> real) list \<Rightarrow> int \<times> int" where
  "followMoves a [] = a"
| "followMoves a (dir # dirs) = followMoves (fst a + fst dir, snd a + fst (snd dir)) dirs"

definition movesCost :: "(int \<times> int \<times> real) list \<Rightarrow> real" where
  "movesCost dirs = sum_list (map (\<lambda>dir. snd (snd dir)) dirs)"

text \<open>The heuristic on real offsets.\<close>

definition octile :: "real \<Rightarrow> real \<Rightarrow> real" where
  "octile u v = max \<bar>u\<bar> \<bar>v\<bar> + (sqrt 2 - 1) * min \<bar>u\<bar> \<bar>v\<bar>"

text \<open>A polyline is collision-free when every segment between consecutive waypoints has
  line of sight: every point sampled along it lies outside every inflated obstacle.\<close>

definition segmentsFree :: "Obstacle list \<Rightarrow> Vec2 list \<Rightarrow> bool" where
  "segmentsFree obstacles ps = successively (\<lambda>a b. hasLineOfSight a b obstacles) ps"

definition waypoint :: "int \<Rightarrow> int \<Rightarrow> Vec2" where
  "waypoint nx ny = \<lparr>vec_x = real_of_int nx * GRID_SIZE, vec_y = real_of_int ny * GRID_SIZE\<rparr>"

text \<open>The parent chain of a search node is sound when every node but the root lies on a
  cell that is not occupied, next to the cell of its parent.\<close>

fun soundChain :: "(int \<times> int) set \<Rightarrow> PathNode \<Rightarrow> bool" where
  "soundChain occ (PathNode nx ny g h f None) = True"
| "soundChain occ (PathNode nx ny g h f (Some p)) \<longleftrightarrow>
     (nx, ny) \<notin> occ \<and> \<bar>pn_x p - nx\<bar> \<le> 1 \<and> \<bar>pn_y p - ny\<bar> \<le> 1 \<and> soundChain occ p"

text \<open>A search around the corner of the building, from (90, 105) to (135, 60): the nodes
  that the search makes, named by their cells.\<close>

definition bend_6_7 :: PathNode where
  "bend_6_7 = PathNode 6 7 (0) (3 * sqrt 2) (3 * sqrt 2) None"

definition bend_5_7 :: PathNode where
  "bend_5_7 = PathNode 5 7 (1) (1 + 3 * sqrt 2) (2 + 3 * sqrt 2) (Some bend_6_7)"

definition bend_6_8 :: PathNode where
  "bend_6_8 = PathNode 6 8 (1) (1 + 3 * sqrt 2) (2 + 3 * sqrt 2) (Some bend_6_7)"

definition bend_6_6 :: PathNode where
  "bend_6_6 = PathNode 6 6 (1) (1 + 2 * sqrt 2) (2 + 2 * sqrt 2) (Some bend_6_7)"

definition bend_5_8 :: PathNode where
  "bend_5_8 = PathNode 5 8 (sqrt 2) (4 * sqrt 2) (5 * sqrt 2) (Some bend_6_7)"

definition bend_5_6 :: PathNode where
  "bend_5_6 = PathNode 5 6 (sqrt 2) (2 + 2 * sqrt 2) (2 + 3 * sqrt 2) (Some bend_6_7)"

definition bend_6_5 :: PathNode where
  "bend_6_5 = PathNode 6 5 (2) (2 + sqrt 2) (4 + sqrt 2) (Some bend_6_6)"

definition bend_5_5 :: PathNode where
  "bend_5_5 = PathNode 5 5 (1 + sqrt 2) (3 + sqrt 2) (4 + 2 * sqrt 2) (Some bend_6_6)"

definition bend_6_4 :: PathNode where
  "bend_6_4 = PathNode 6 4 (3) (3) (6) (Some bend_6_5)"

definition bend_7_4 :: PathNode where
  "bend_7_4 = PathNode 7 4 (2 + sqrt 2) (2) (4 + sqrt 2) (Some bend_6_5)"

definition bend_5_4 :: PathNode where
  "bend_5_4 = PathNode 5 4 (2 + sqrt 2) (4) (6 + sqrt 2) (Some bend_6_5)"

definition bend_8_4 :: PathNode where
  "bend_8_4 = PathNode 8 4 (3 + sqrt 2) (1) (4 + sqrt 2) (Some bend_7_4)"

definition bend_7_3 :: PathNode where
  "bend_7_3 = PathNode 7 3 (3 + sqrt 2) (1 + sqrt 2) (4 + 2 * sqrt 2) (Some bend_7_4)"

definition bend_8_3 :: PathNode where
  "bend_8_3 = PathNode 8 3 (2 + 2 * sqrt 2) (sqrt 2) (2 + 3 * sqrt 2) (Some bend_7_4)"

definition bend_6_3 :: PathNode where
  "bend_6_3 = PathNode 6 3 (2 + 2 * sqrt 2) (2 + sqrt 2) (4 + 3 * sqrt 2) (Some bend_7_4)"

definition bend_9_4 :: PathNode where
  "bend_9_4 = PathNode 9 4 (4 + sqrt 2) (0) (4 + sqrt 2) (Some bend_8_4)"

definition bend_9_3 :: PathNode where
  "bend_9_3 = PathNode 9 3 (3 + 2 * sqrt 2) (1) (4 + 2 * sqrt 2) (Some bend_8_4)"

section \<open>Properties\<close>

subsection \<open>The range sensor\<close>

lemma rayMarch_form:
  "rayMarch drone angle obstacles w h d = Some (d', p) \<Longrightarrow>
     (\<exists>k::nat. d' = d + 3 * real k) \<and> d' < LIDAR_RANGE"
proof (induction drone angle obstacles w h d rule: rayMarch.induct)
  case (1 drone angle obstacles w h d)
  show ?case
  proof (cases "d < LIDAR_RANGE")
    case False
    with "1.prems" show ?thesis by (simp add: rayMarch.simps)
  next
    case inrange: True
    define px where "px = vec_x drone + cos angle * d"
    define py where "py = vec_y drone + sin angle * d"
    show ?thesis
    proof (cases "(px < 0 \<or> px > w \<or> py < 0 \<or> py > h) \<or> list_ex (insideObstacle px py) obstacles")
      case True
      with "1.prems" inrange have "d' = d"
        by (subst (asm) rayMarch.simps) (auto simp: px_def py_def Let_def split: if_splits)
      with inrange show ?thesis by (auto intro: exI [of _ 0])
    next
      case False
      with "1.prems" inrange
      have next_call: "rayMarch drone angle obstacles w h (d + 3) = Some (d', p)"
        by (subst (asm) rayMarch.simps) (auto simp: px_def py_def Let_def split: if_splits)
      from False have a: "\<not> (px < 0 \<or> px > w \<or> py < 0 \<or> py > h)"
        and b: "\<not> list_ex (insideObstacle px py) obstacles" by auto
      from "1.IH" [OF inrange px_def py_def a b next_call]
      obtain k :: nat where "d' = d + 3 + 3 * real k" and "d' < LIDAR_RANGE" by auto
      then have "d' = d + 3 * real (Suc k)" by simp
      with \<open>d' < LIDAR_RANGE\<close> show ?thesis by blast
    qed
  qed
qed

lemma castRay_angle:
  "ray_angle (castRay drone heading obstacles w h i) = heading + real i * (2 * pi / 36)"
  by (simp add: castRay_def LIDAR_RAYS_def Let_def split: option.splits)

lemma castRay_distance:
  "(\<not> ray_hit (castRay drone heading obstacles w h i) \<and>
      ray_distance (castRay drone heading obstacles w h i) = LIDAR_RANGE) \<or>
   (ray_hit (castRay drone heading obstacles w h i) \<and>
      (\<exists>k::nat. ray_distance (castRay drone heading obstacles w h i) = 5 + 3 * real k) \<and>
      ray_distance (castRay drone heading obstacles w h i) < LIDAR_RANGE)"
proof (cases "rayMarch drone (heading + (real i / real LIDAR_RAYS) * pi * 2) obstacles w h 5")
  case None
  then show ?thesis by (simp add: castRay_def Let_def)
next
  case (Some r)
  obtain d p where r: "r = (d, p)" by (cases r)
  from rayMarch_form [OF Some [unfolded r]] Some r show ?thesis
    by (simp add: castRay_def Let_def)
qed

lemma rayMarch_unfold:
  "rayMarch drone angle obstacles w h d =
     (if d < LIDAR_RANGE then
        if blocked (samplePoint drone angle d) obstacles w h
        then Some (d, samplePoint drone angle d)
        else rayMarch drone angle obstacles w h (d + 3)
      else None)"
  by (subst rayMarch.simps) (simp add: Let_def blocked_def samplePoint_def)

lemma rayMarch_hit:
  "rayMarch drone angle obstacles w h d = Some (d', p) \<Longrightarrow>
     p = samplePoint drone angle d' \<and> blocked p obstacles w h \<and>
     (\<forall>j::nat. d + 3 * real j < d' \<longrightarrow>
        \<not> blocked (samplePoint drone angle (d + 3 * real j)) obstacles w h)"
proof (induction drone angle obstacles w h d rule: rayMarch.induct)
  case (1 drone angle obstacles w h d)
  show ?case
  proof (cases "d < LIDAR_RANGE")
    case False
    with "1.prems" show ?thesis by (simp add: rayMarch_unfold [of _ _ _ _ _ d])
  next
    case inrange: True
    show ?thesis
    proof (cases "blocked (samplePoint drone angle d) obstacles w h")
      case True
      with "1.prems" inrange have "d' = d" "p = samplePoint drone angle d"
        by (auto simp: rayMarch_unfold [of _ _ _ _ _ d])
      with True show ?thesis by simp
    next
      case False
      with "1.prems" inrange
      have next_call: "rayMarch drone angle obstacles w h (d + 3) = Some (d', p)"
        by (simp add: rayMarch_unfold [of _ _ _ _ _ d])
      from False have a: "\<not> (vec_x drone + cos angle * d < 0 \<or> vec_x drone + cos angle * d > w
            \<or> vec_y drone + sin angle * d < 0 \<or> vec_y drone + sin angle * d > h)"
        and b: "\<not> list_ex (insideObstacle (vec_x drone + cos angle * d)
            (vec_y drone + sin angle * d)) obstacles"
        by (simp_all add: blocked_def samplePoint_def)
      from "1.IH" [OF inrange refl refl a b next_call]
      have p: "p = samplePoint drone angle d'" and bl: "blocked p obstacles w h"
        and first: "\<And>j::nat. d + 3 + 3 * real j < d'
            \<Longrightarrow> \<not> blocked (samplePoint drone angle (d + 3 + 3 * real j)) obstacles w h"
        by blast+
      have "\<not> blocked (samplePoint drone angle (d + 3 * real j)) obstacles w h"
        if "d + 3 * real j < d'" for j :: nat
      proof (cases j)
        case 0
        with False show ?thesis by simp
      next
        case (Suc j')
        then have eq: "d + 3 * real j = d + 3 + 3 * real j'" by simp
        from that first [of j'] show ?thesis unfolding eq by simp
      qed
      with p bl show ?thesis by blast
    qed
  qed
qed

lemma rayMarch_miss:
  "rayMarch drone angle obstacles w h d = None \<Longrightarrow> d + 3 * real (j::nat) < LIDAR_RANGE \<Longrightarrow>
     \<not> blocked (samplePoint drone angle (d + 3 * real j)) obstacles w h"
proof (induction drone angle obstacles w h d arbitrary: j rule: rayMarch.induct)
  case (1 drone angle obstacles w h d)
  from "1.prems"(2) have inrange: "d < LIDAR_RANGE"
    by (smt (verit) of_nat_0_le_iff)
  from "1.prems"(1) inrange have free: "\<not> blocked (samplePoint drone angle d) obstacles w h"
    by (auto simp: rayMarch_unfold [of _ _ _ _ _ d] split: if_splits)
  with "1.prems"(1) inrange have next_call: "rayMarch drone angle obstacles w h (d + 3) = None"
    by (simp add: rayMarch_unfold [of _ _ _ _ _ d])
  from free have a: "\<not> (vec_x drone + cos angle * d < 0 \<or> vec_x drone + cos angle * d > w
        \<or> vec_y drone + sin angle * d < 0 \<or> vec_y drone + sin angle * d > h)"
    and b: "\<not> list_ex (insideObstacle (vec_x drone + cos angle * d)
        (vec_y drone + sin angle * d)) obstacles"
    by (simp_all add: blocked_def samplePoint_def)
  show ?case
  proof (cases j)
    case 0
    with free show ?thesis by simp
  next
    case (Suc j')
    then have eq: "d + 3 * real j = d + 3 + 3 * real j'" by simp
    from "1.prems"(2) have "d + 3 + 3 * real j' < LIDAR_RANGE" unfolding eq .
    from "1.IH" [OF inrange refl refl a b next_call this] show ?thesis unfolding eq .
  qed
qed

text \<open>What a reading says of the sampled points of its ray.\<close>

lemma castRay_detects:
  fixes drone heading obstacles w h i
  defines "r \<equiv> castRay drone heading obstacles w h i"
  shows "(ray_hit r \<longrightarrow>
            ray_hitPoint r = Some (samplePoint drone (ray_angle r) (ray_distance r)) \<and>
            blocked (samplePoint drone (ray_angle r) (ray_distance r)) obstacles w h)"
    and "5 + 3 * real (k::nat) < 120 \<Longrightarrow>
          blocked (samplePoint drone (ray_angle r) (5 + 3 * real k)) obstacles w h \<Longrightarrow>
          ray_hit r \<and> ray_distance r \<le> 5 + 3 * real k"
    and "5 + 3 * real (j::nat) < ray_distance r \<Longrightarrow>
          \<not> blocked (samplePoint drone (ray_angle r) (5 + 3 * real j)) obstacles w h"
proof -
  define angle where "angle = heading + (real i / real LIDAR_RAYS) * pi * 2"
  have ang: "ray_angle r = angle"
    by (simp add: r_def castRay_def angle_def Let_def split: option.splits)
  have all: "(ray_hit r \<longrightarrow>
            ray_hitPoint r = Some (samplePoint drone angle (ray_distance r)) \<and>
            blocked (samplePoint drone angle (ray_distance r)) obstacles w h) \<and>
      (5 + 3 * real k < 120 \<longrightarrow>
          blocked (samplePoint drone angle (5 + 3 * real k)) obstacles w h \<longrightarrow>
          ray_hit r \<and> ray_distance r \<le> 5 + 3 * real k) \<and>
      (5 + 3 * real j < ray_distance r \<longrightarrow>
          \<not> blocked (samplePoint drone angle (5 + 3 * real j)) obstacles w h)"
  proof (cases "rayMarch drone angle obstacles w h 5")
    case None
    then have r: "r = \<lparr>ray_angle = angle, ray_distance = LIDAR_RANGE, ray_hit = False,
        ray_hitPoint = None\<rparr>"
      by (simp add: r_def castRay_def angle_def Let_def)
    from rayMarch_miss [OF None] show ?thesis
      by (auto simp: r LIDAR_RANGE_def)
  next
    case (Some res)
    obtain d p where res: "res = (d, p)" by (cases res)
    from Some res have r: "r = \<lparr>ray_angle = angle, ray_distance = d, ray_hit = True,
        ray_hitPoint = Some p\<rparr>"
      by (simp add: r_def castRay_def angle_def Let_def)
    from rayMarch_hit [OF Some [unfolded res]]
    have p: "p = samplePoint drone angle d" and bl: "blocked p obstacles w h"
      and first: "\<And>j::nat. 5 + 3 * real j < d
          \<Longrightarrow> \<not> blocked (samplePoint drone angle (5 + 3 * real j)) obstacles w h"
      by blast+
    have "d \<le> 5 + 3 * real k"
      if "blocked (samplePoint drone angle (5 + 3 * real k)) obstacles w h"
      using first [of k] that by (cases "5 + 3 * real k < d") simp_all
    with p bl first show ?thesis by (simp add: r)
  qed
  from all show "(ray_hit r \<longrightarrow>
            ray_hitPoint r = Some (samplePoint drone (ray_angle r) (ray_distance r)) \<and>
            blocked (samplePoint drone (ray_angle r) (ray_distance r)) obstacles w h)"
    unfolding ang by blast
  from all show "5 + 3 * real k < 120 \<Longrightarrow>
          blocked (samplePoint drone (ray_angle r) (5 + 3 * real k)) obstacles w h \<Longrightarrow>
          ray_hit r \<and> ray_distance r \<le> 5 + 3 * real k"
    unfolding ang by blast
  from all show "5 + 3 * real j < ray_distance r \<Longrightarrow>
          \<not> blocked (samplePoint drone (ray_angle r) (5 + 3 * real j)) obstacles w h"
    unfolding ang by blast
qed

text \<open>
  Claim C10. For every drone pose, heading and obstacle set the sweep has exactly
  \<open>LIDAR_RAYS = 36\<close> readings, ray \<open>i\<close> has the angle \<open>heading + i \<sqdot> 2\<pi>/36\<close>, and every
  reading is either a miss at exactly the maximum range 120 or a hit at a distance
  \<open>5 + 3k\<close> strictly below 120; so no hit is ever reported below distance 5.

  The claim's last clause, that an obstacle surface closer than 5 pixels along a ray is
  never detected, does not hold: a box that begins 2 pixels ahead of the drone and extends
  past 5 pixels is reported, as a hit at distance 5.
\<close>

theorem lidar_near_surface_counterexample:
  "onSurface (samplePoint \<lparr>vec_x = 100, vec_y = 100\<rparr> 0 2) nearBox \<and>
   simulateLidar \<lparr>vec_x = 100, vec_y = 100\<rparr> 0 [nearBox] 700 400 ! 0
     = \<lparr>ray_angle = 0, ray_distance = 5, ray_hit = True,
        ray_hitPoint = Some \<lparr>vec_x = 105, vec_y = 100\<rparr>\<rparr>"
proof -
  have "rayMarch \<lparr>vec_x = 100, vec_y = 100\<rparr> 0 [nearBox] 700 400 5
      = Some (5, \<lparr>vec_x = 105, vec_y = 100\<rparr>)"
    by (simp add: rayMarch_unfold [of _ _ _ _ _ 5] LIDAR_RANGE_def blocked_def samplePoint_def
        insideObstacle_def nearBox_def)
  then have "castRay \<lparr>vec_x = 100, vec_y = 100\<rparr> 0 [nearBox] 700 400 0
      = \<lparr>ray_angle = 0, ray_distance = 5, ray_hit = True,
         ray_hitPoint = Some \<lparr>vec_x = 105, vec_y = 100\<rparr>\<rparr>"
    by (simp add: castRay_def Let_def)
  moreover have "simulateLidar \<lparr>vec_x = 100, vec_y = 100\<rparr> 0 [nearBox] 700 400 ! 0
      = castRay \<lparr>vec_x = 100, vec_y = 100\<rparr> 0 [nearBox] 700 400 0"
    by (simp add: simulateLidar_def LIDAR_RAYS_def)
  moreover have "onSurface (samplePoint \<lparr>vec_x = 100, vec_y = 100\<rparr> 0 2) nearBox"
    by (simp add: onSurface_def samplePoint_def insideObstacle_def nearBox_def)
  ultimately show ?thesis by simp
qed

text \<open>
  What holds instead: a reading is a hit exactly when one of the points sampled at the
  distances 5, 8, 11, ... below 120 along its ray is blocked (outside the canvas or strictly
  inside an obstacle), and it then reports the first such distance and point. So a surface
  nearer than 5 pixels is not reported at its own distance: the obstacle behind it is
  reported at the first sampled distance that falls inside it, and a ray misses an
  obstacle only when none of its sampled points falls inside.
\<close>

theorem simulateLidar_readings:
  "length (simulateLidar drone heading obstacles w h) = 36 \<and>
   (\<forall>i<36.
      ray_angle (simulateLidar drone heading obstacles w h ! i)
        = heading + real i * (2 * pi / 36) \<and>
      ((\<not> ray_hit (simulateLidar drone heading obstacles w h ! i) \<and>
          ray_distance (simulateLidar drone heading obstacles w h ! i) = 120) \<or>
       (ray_hit (simulateLidar drone heading obstacles w h ! i) \<and>
          (\<exists>k::nat. ray_distance (simulateLidar drone heading obstacles w h ! i)
                      = 5 + 3 * real k) \<and>
          ray_distance (simulateLidar drone heading obstacles w h ! i) < 120)) \<and>
      (ray_hit (simulateLidar drone heading obstacles w h ! i) \<longrightarrow>
          5 \<le> ray_distance (simulateLidar drone heading obstacles w h ! i)) \<and>
      (ray_hit (simulateLidar drone heading obstacles w h ! i) \<longrightarrow>
          ray_hitPoint (simulateLidar drone heading obstacles w h ! i)
            = Some (samplePoint drone
                (ray_angle (simulateLidar drone heading obstacles w h ! i))
                (ray_distance (simulateLidar drone heading obstacles w h ! i))) \<and>
          blocked (samplePoint drone
              (ray_angle (simulateLidar drone heading obstacles w h ! i))
              (ray_distance (simulateLidar drone heading obstacles w h ! i))) obstacles w h) \<and>
      (\<forall>k::nat. 5 + 3 * real k < 120 \<longrightarrow>
          blocked (samplePoint drone
              (ray_angle (simulateLidar drone heading obstacles w h ! i))
              (5 + 3 * real k)) obstacles w h \<longrightarrow>
          ray_hit (simulateLidar drone heading obstacles w h ! i) \<and>
          ray_distance (simulateLidar drone heading obstacles w h ! i) \<le> 5 + 3 * real k) \<and>
      (\<forall>k::nat. 5 + 3 * real k < ray_distance (simulateLidar drone heading obstacles w h ! i) \<longrightarrow>
          \<not> blocked (samplePoint drone
              (ray_angle (simulateLidar drone heading obstacles w h ! i))
              (5 + 3 * real k)) obstacles w h))"
proof (intro conjI allI impI)
  show "length (simulateLidar drone heading obstacles w h) = 36"
    by (simp add: simulateLidar_def LIDAR_RAYS_def)
next
  fix i :: nat assume i: "i < 36"
  then have nth: "simulateLidar drone heading obstacles w h ! i
      = castRay drone heading obstacles w h i"
    by (simp add: simulateLidar_def LIDAR_RAYS_def)
  show "ray_angle (simulateLidar drone heading obstacles w h ! i)
      = heading + real i * (2 * pi / 36)"
    by (simp only: nth castRay_angle)
  show "(\<not> ray_hit (simulateLidar drone heading obstacles w h ! i) \<and>
          ray_distance (simulateLidar drone heading obstacles w h ! i) = 120) \<or>
       (ray_hit (simulateLidar drone heading obstacles w h ! i) \<and>
          (\<exists>k::nat. ray_distance (simulateLidar drone heading obstacles w h ! i)
                      = 5 + 3 * real k) \<and>
          ray_distance (simulateLidar drone heading obstacles w h ! i) < 120)"
    using castRay_distance [of drone heading obstacles w h i]
    by (simp only: nth LIDAR_RANGE_def)
  {
    assume hit: "ray_hit (simulateLidar drone heading obstacles w h ! i)"
    with castRay_distance [of drone heading obstacles w h i]
    obtain k :: nat where "ray_distance (castRay drone heading obstacles w h i) = 5 + 3 * real k"
      by (auto simp: nth)
    then show "5 \<le> ray_distance (simulateLidar drone heading obstacles w h ! i)"
      by (simp add: nth)
    from hit castRay_detects(1) [of drone heading obstacles w h i]
    show "ray_hitPoint (simulateLidar drone heading obstacles w h ! i)
            = Some (samplePoint drone
                (ray_angle (simulateLidar drone heading obstacles w h ! i))
                (ray_distance (simulateLidar drone heading obstacles w h ! i)))"
      and "blocked (samplePoint drone
              (ray_angle (simulateLidar drone heading obstacles w h ! i))
              (ray_distance (simulateLidar drone heading obstacles w h ! i))) obstacles w h"
      by (simp_all only: nth)
  }
  {
    fix k :: nat
    assume "5 + 3 * real k < 120"
      and "blocked (samplePoint drone
              (ray_angle (simulateLidar drone heading obstacles w h ! i))
              (5 + 3 * real k)) obstacles w h"
    with castRay_detects(2) [of k drone heading obstacles w h i]
    show "ray_hit (simulateLidar drone heading obstacles w h ! i)"
      and "ray_distance (simulateLidar drone heading obstacles w h ! i) \<le> 5 + 3 * real k"
      by (simp_all only: nth)
  }
  {
    fix k :: nat
    assume "5 + 3 * real k < ray_distance (simulateLidar drone heading obstacles w h ! i)"
    then have "5 + 3 * real k < ray_distance (castRay drone heading obstacles w h i)"
      by (simp only: nth)
    then show "\<not> blocked (samplePoint drone
              (ray_angle (simulateLidar drone heading obstacles w h ! i))
              (5 + 3 * real k)) obstacles w h"
      unfolding nth by (rule castRay_detects(3))
  }
qed

theorem simulateLidar_readings_witness:
  "ray_angle (simulateLidar \<lparr>vec_x = 100, vec_y = 100\<rparr> 0 [building] 700 400 ! 0) = 0 \<and>
   ray_hit (simulateLidar \<lparr>vec_x = 100, vec_y = 100\<rparr> 0 [building] 700 400 ! 0) \<and>
   ray_distance (simulateLidar \<lparr>vec_x = 100, vec_y = 100\<rparr> 0 [building] 700 400 ! 0) = 26 \<and>
   ray_hitPoint (simulateLidar \<lparr>vec_x = 100, vec_y = 100\<rparr> 0 [building] 700 400 ! 0)
     = Some \<lparr>vec_x = 126, vec_y = 100\<rparr>"
proof -
  let ?r = "simulateLidar \<lparr>vec_x = 100, vec_y = 100\<rparr> 0 [building] 700 400 ! 0"
  have bl: "blocked (samplePoint \<lparr>vec_x = 100, vec_y = 100\<rparr> 0 (5 + 3 * real k)) [building] 700 400
      \<longleftrightarrow> 7 \<le> k" if "5 + 3 * real k \<le> 26" for k :: nat
  proof -
    have "20 < 3 * real k \<longleftrightarrow> 7 \<le> k" by linarith
    with that show ?thesis
      by (auto simp: blocked_def samplePoint_def insideObstacle_def building_def)
  qed
  have "(0::nat) < 36" by simp
  note inst = simulateLidar_readings [of "\<lparr>vec_x = 100, vec_y = 100\<rparr>" 0 "[building]" 700 400,
      THEN conjunct2, rule_format, OF this]
  from inst have ang: "ray_angle ?r = 0" by simp
  from inst have form: "(\<not> ray_hit ?r \<and> ray_distance ?r = 120) \<or>
       (ray_hit ?r \<and> (\<exists>k::nat. ray_distance ?r = 5 + 3 * real k) \<and> ray_distance ?r < 120)"
    by blast
  from inst have point: "ray_hit ?r \<longrightarrow>
        ray_hitPoint ?r = Some (samplePoint \<lparr>vec_x = 100, vec_y = 100\<rparr> (ray_angle ?r)
            (ray_distance ?r)) \<and>
        blocked (samplePoint \<lparr>vec_x = 100, vec_y = 100\<rparr> (ray_angle ?r) (ray_distance ?r))
          [building] 700 400"
    by blast
  from inst have found: "\<forall>k::nat. 5 + 3 * real k < 120 \<longrightarrow>
        blocked (samplePoint \<lparr>vec_x = 100, vec_y = 100\<rparr> (ray_angle ?r) (5 + 3 * real k))
          [building] 700 400 \<longrightarrow>
        ray_hit ?r \<and> ray_distance ?r \<le> 5 + 3 * real k"
    by blast
  from found [rule_format, of 7] bl [of 7] have hit: "ray_hit ?r" and le: "ray_distance ?r \<le> 26"
    unfolding ang by simp_all
  from form hit obtain k :: nat where k: "ray_distance ?r = 5 + 3 * real k" by blast
  from le k have "5 + 3 * real k \<le> 26" by simp
  from point hit bl [OF this] have "7 \<le> k" unfolding ang k by simp
  with le k have "k = 7" by simp
  with k have dist: "ray_distance ?r = 26" by simp
  from point hit have "ray_hitPoint ?r = Some \<lparr>vec_x = 126, vec_y = 100\<rparr>"
    unfolding ang dist by (simp add: samplePoint_def)
  with ang hit dist show ?thesis by simp
qed

subsection \<open>The controller\<close>

lemma foldl_avoidRay_fields:
  "dr_x (foldl avoidRay d rays) = dr_x d \<and> dr_y (foldl avoidRay d rays) = dr_y d \<and>
   dr_state (foldl avoidRay d rays) = dr_state d"
  by (induction rays arbitrary: d) (auto simp: avoidRay_def Let_def)

lemma enterAvoiding_fields:
  "dr_x (st_drone (enterAvoiding c s)) = dr_x (st_drone s) \<and>
   dr_y (st_drone (enterAvoiding c s)) = dr_y (st_drone s) \<and>
   st_target (enterAvoiding c s) = st_target s \<and>
   st_lidarData (enterAvoiding c s) = st_lidarData s"
  by (simp add: enterAvoiding_def)

lemma enterAvoiding_state:
  "dr_state (st_drone (enterAvoiding c s)) =
     (if c < SAFE_DISTANCE \<and> dr_state (st_drone s) = Navigating then Avoiding
      else dr_state (st_drone s))"
  by (simp add: enterAvoiding_def)

lemma steerDrone_fields:
  "dr_x (st_drone (steerDrone m sp s)) = dr_x (st_drone s) \<and>
   dr_y (st_drone (steerDrone m sp s)) = dr_y (st_drone s) \<and>
   dr_state (st_drone (steerDrone m sp s)) = dr_state (st_drone s) \<and>
   st_target (steerDrone m sp s) = st_target s \<and>
   st_lidarData (steerDrone m sp s) = st_lidarData s"
  by (simp add: steerDrone_def Let_def split: option.splits)

lemma avoidStep_fields:
  "dr_x (st_drone (avoidStep c s)) = dr_x (st_drone s) \<and>
   dr_y (st_drone (avoidStep c s)) = dr_y (st_drone s) \<and>
   st_target (avoidStep c s) = st_target s \<and>
   st_lidarData (avoidStep c s) = st_lidarData s"
  by (simp add: avoidStep_def Let_def foldl_avoidRay_fields)

lemma avoidStep_state:
  "dr_state (st_drone (avoidStep c s)) =
     (if dr_state (st_drone s) = Avoiding \<and> c > SAFE_DISTANCE * 1.2 then Navigating
      else dr_state (st_drone s))"
  by (simp add: avoidStep_def Let_def foldl_avoidRay_fields)

lemma arrivalCheck_arrived:
  "arrived s \<Longrightarrow>
     dr_state (st_drone (arrivalCheck s)) = Idle \<and> st_target (arrivalCheck s) = None \<and>
     st_path (arrivalCheck s) = []"
  by (auto simp: arrived_def arrivalCheck_def Let_def split: option.splits)

lemma arrivalCheck_not_arrived: "\<not> arrived s \<Longrightarrow> arrivalCheck s = s"
  by (auto simp: arrived_def arrivalCheck_def Let_def split: option.splits)

lemma arrivalCheck_lidarData: "st_lidarData (arrivalCheck s) = st_lidarData s"
  by (auto simp: arrivalCheck_def Let_def split: option.splits)

lemma arrived_cong:
  "st_target s' = st_target s \<Longrightarrow> dr_x (st_drone s') = dr_x (st_drone s) \<Longrightarrow>
   dr_y (st_drone s') = dr_y (st_drone s) \<Longrightarrow> arrived s' = arrived s"
  by (simp add: arrived_def split: option.splits)

lemma physicsUpdate_state: "dr_state (physicsUpdate sp w h d) = dr_state d"
  by (simp add: physicsUpdate_def Let_def)

lemma animate_unfold:
  "animate m sp w h rnd s =
     (let s1 = enterAvoiding (closestObstacle (tickSweep w h rnd s))
                 (s\<lparr>st_obstacles := fst (updateObstacles rnd w h (st_obstacles s)),
                    st_lidarData := tickSweep w h rnd s\<rparr>);
          s2 = navigationStep m sp (closestObstacle (tickSweep w h rnd s)) s1
      in s2\<lparr>st_drone := physicsUpdate sp w h (st_drone s2)\<rparr>)"
  by (simp add: animate_def tickSweep_def Let_def)

lemma animate_lidarData: "st_lidarData (animate m sp w h rnd s) = tickSweep w h rnd s"
  by (simp add: animate_unfold Let_def navigationStep_def arrivalCheck_lidarData
      avoidStep_fields steerDrone_fields enterAvoiding_fields)

lemma animate_arrival:
  assumes act: "dr_state (st_drone s) = Navigating \<or> dr_state (st_drone s) = Avoiding"
    and arr: "arrived s"
  shows "dr_state (st_drone (animate m sp w h rnd s)) = Idle \<and>
         st_target (animate m sp w h rnd s) = None \<and>
         st_path (animate m sp w h rnd s) = []"
proof -
  define c where "c = closestObstacle (tickSweep w h rnd s)"
  define s1 where "s1 = enterAvoiding c
      (s\<lparr>st_obstacles := fst (updateObstacles rnd w h (st_obstacles s)),
         st_lidarData := tickSweep w h rnd s\<rparr>)"
  define s2 where "s2 = avoidStep c (steerDrone m sp s1)"
  from act have act1: "dr_state (st_drone s1) = Navigating \<or> dr_state (st_drone s1) = Avoiding"
    by (auto simp: s1_def enterAvoiding_state)
  have "arrived s1 = arrived s"
    unfolding s1_def by (rule arrived_cong) (simp_all add: enterAvoiding_fields)
  moreover have "arrived s2 = arrived s1"
    unfolding s2_def by (rule arrived_cong) (simp_all add: avoidStep_fields steerDrone_fields)
  ultimately have "arrived s2" using arr by simp
  then have "dr_state (st_drone (arrivalCheck s2)) = Idle \<and> st_target (arrivalCheck s2) = None \<and>
     st_path (arrivalCheck s2) = []"
    by (rule arrivalCheck_arrived)
  moreover from act1 have "navigationStep m sp c s1 = arrivalCheck s2"
    by (auto simp: navigationStep_def s2_def)
  ultimately show ?thesis
    by (simp add: animate_unfold Let_def c_def [symmetric] s1_def [symmetric]
        physicsUpdate_state)
qed

lemma animate_no_arrival:
  assumes act: "dr_state (st_drone s) = Navigating \<or> dr_state (st_drone s) = Avoiding"
    and arr: "\<not> arrived s"
  shows "dr_state (st_drone (animate m sp w h rnd s)) =
     (if closestObstacle (tickSweep w h rnd s) < SAFE_DISTANCE
         \<and> dr_state (st_drone s) = Navigating then Avoiding
      else if dr_state (st_drone s) = Avoiding
         \<and> closestObstacle (tickSweep w h rnd s) > SAFE_DISTANCE * 1.2 then Navigating
      else dr_state (st_drone s))"
proof -
  define c where "c = closestObstacle (tickSweep w h rnd s)"
  define s1 where "s1 = enterAvoiding c
      (s\<lparr>st_obstacles := fst (updateObstacles rnd w h (st_obstacles s)),
         st_lidarData := tickSweep w h rnd s\<rparr>)"
  define s2 where "s2 = avoidStep c (steerDrone m sp s1)"
  from act have act1: "dr_state (st_drone s1) = Navigating \<or> dr_state (st_drone s1) = Avoiding"
    by (auto simp: s1_def enterAvoiding_state)
  have "arrived s1 = arrived s"
    unfolding s1_def by (rule arrived_cong) (simp_all add: enterAvoiding_fields)
  moreover have "arrived s2 = arrived s1"
    unfolding s2_def by (rule arrived_cong) (simp_all add: avoidStep_fields steerDrone_fields)
  ultimately have "\<not> arrived s2" using arr by simp
  then have "arrivalCheck s2 = s2" by (rule arrivalCheck_not_arrived)
  moreover from act1 have "navigationStep m sp c s1 = arrivalCheck s2"
    by (auto simp: navigationStep_def s2_def)
  moreover have "dr_state (st_drone s2) =
     (if c < SAFE_DISTANCE \<and> dr_state (st_drone s) = Navigating then Avoiding
      else if dr_state (st_drone s) = Avoiding \<and> c > SAFE_DISTANCE * 1.2 then Navigating
      else dr_state (st_drone s))"
    using act
    by (auto simp: s2_def avoidStep_state steerDrone_fields s1_def enterAvoiding_state
        SAFE_DISTANCE_def)
  ultimately show ?thesis
    by (simp add: animate_unfold Let_def c_def [symmetric] s1_def [symmetric]
        physicsUpdate_state)
qed

lemma closestObstacle_foldl_le:
  "foldl (\<lambda>m ray. if ray_distance ray < m then ray_distance ray else m) m0 rays \<le> m0"
proof (induction rays arbitrary: m0)
  case Nil
  show ?case by simp
next
  case (Cons r rays)
  have "foldl (\<lambda>m ray. if ray_distance ray < m then ray_distance ray else m) m0 (r # rays)
      \<le> (if ray_distance r < m0 then ray_distance r else m0)"
    using Cons.IH by simp
  then show ?case by (auto split: if_splits)
qed

lemma closestObstacle_foldl_le_ray:
  "r \<in> set rays \<Longrightarrow>
     foldl (\<lambda>m ray. if ray_distance ray < m then ray_distance ray else m) m0 rays
       \<le> ray_distance r"
proof (induction rays arbitrary: m0)
  case Nil
  then show ?case by simp
next
  case (Cons a rays)
  show ?case
  proof (cases "r = a")
    case True
    have "foldl (\<lambda>m ray. if ray_distance ray < m then ray_distance ray else m) m0 (a # rays)
        \<le> (if ray_distance a < m0 then ray_distance a else m0)"
      by (simp add: closestObstacle_foldl_le)
    with True show ?thesis by (auto split: if_splits)
  next
    case False
    with Cons.prems have "r \<in> set rays" by simp
    then show ?thesis using Cons.IH by simp
  qed
qed

lemma closestObstacle_le_ray: "r \<in> set rays \<Longrightarrow> closestObstacle rays \<le> ray_distance r"
  unfolding closestObstacle_def by (rule closestObstacle_foldl_le_ray)

lemma closestObstacle_foldl_ge:
  "c \<le> m0 \<Longrightarrow> \<forall>r \<in> set rays. c \<le> ray_distance r \<Longrightarrow>
     c \<le> foldl (\<lambda>m ray. if ray_distance ray < m then ray_distance ray else m) m0 rays"
  by (induction rays arbitrary: m0) auto

lemma closestObstacle_ge:
  "c \<le> LIDAR_RANGE \<Longrightarrow> \<forall>r \<in> set rays. c \<le> ray_distance r \<Longrightarrow> c \<le> closestObstacle rays"
  unfolding closestObstacle_def by (rule closestObstacle_foldl_ge)

lemma castRay_in_sweep:
  "i < 36 \<Longrightarrow> castRay drone heading obstacles w h i \<in> set (simulateLidar drone heading obstacles w h)"
  by (simp add: simulateLidar_def LIDAR_RAYS_def)

text \<open>In an empty field, a drone further than the sensor range from every canvas edge sees
  nothing.\<close>

lemma rayMarch_open_field:
  assumes "LIDAR_RANGE \<le> vec_x drone" "vec_x drone \<le> w - LIDAR_RANGE"
    and "LIDAR_RANGE \<le> vec_y drone" "vec_y drone \<le> h - LIDAR_RANGE"
    and "0 \<le> d"
  shows "rayMarch drone angle [] w h d = None"
  using assms
proof (induction drone angle "[] :: Obstacle list" w h d rule: rayMarch.induct)
  case (1 drone angle w h d)
  show ?case
  proof (cases "d < LIDAR_RANGE")
    case False
    then show ?thesis by (simp add: rayMarch.simps)
  next
    case True
    have c: "\<bar>cos angle * d\<bar> \<le> d" and s: "\<bar>sin angle * d\<bar> \<le> d"
      using \<open>0 \<le> d\<close> abs_cos_le_one [of angle] abs_sin_le_one [of angle]
      by (simp_all add: abs_mult mult_left_le_one_le)
    define px where "px = vec_x drone + cos angle * d"
    define py where "py = vec_y drone + sin angle * d"
    from c s True "1.prems" have inside: "\<not> (px < 0 \<or> px > w \<or> py < 0 \<or> py > h)"
      unfolding px_def py_def by (auto simp: abs_le_iff)
    have nohit: "\<not> list_ex (insideObstacle px py) []" by simp
    from "1.prems" have "rayMarch drone angle [] w h (d + 3) = None"
      by (intro "1.hyps" [OF True px_def py_def inside nohit]) simp_all
    with True inside show ?thesis
      by (subst rayMarch.simps) (simp add: Let_def px_def py_def)
  qed
qed

lemma sweep_open_field:
  assumes "LIDAR_RANGE \<le> vec_x drone" "vec_x drone \<le> w - LIDAR_RANGE"
    and "LIDAR_RANGE \<le> vec_y drone" "vec_y drone \<le> h - LIDAR_RANGE"
  shows "closestObstacle (simulateLidar drone heading [] w h) = LIDAR_RANGE"
proof -
  have "\<forall>r \<in> set (simulateLidar drone heading [] w h). LIDAR_RANGE \<le> ray_distance r"
    using assms by (auto simp: simulateLidar_def castRay_def Let_def rayMarch_open_field)
  then have "LIDAR_RANGE \<le> closestObstacle (simulateLidar drone heading [] w h)"
    by (intro closestObstacle_ge) simp_all
  moreover have "closestObstacle (simulateLidar drone heading [] w h) \<le> LIDAR_RANGE"
    unfolding closestObstacle_def by (rule closestObstacle_foldl_le)
  ultimately show ?thesis by simp
qed

lemma updateObstacles_Nil: "updateObstacles rnd w h [] = ([], 0)"
  by (simp add: updateObstacles_def)

lemma updateObstacles_static1:
  "ob_velocity obs = None \<Longrightarrow> updateObstacles rnd w h [obs] = ([obs], 0)"
  by (simp add: updateObstacles_def updateObstacle_def Let_def)

subsection \<open>Example states\<close>

lemma building_ray:
  "rayMarch \<lparr>vec_x = 100, vec_y = 100\<rparr> 0 [building] 700 400 5
     = Some (26, \<lparr>vec_x = 126, vec_y = 100\<rparr>)"
  by (simp add: rayMarch.simps LIDAR_RANGE_def insideObstacle_def building_def)

lemma building_sweep:
  "closestObstacle (simulateLidar \<lparr>vec_x = 100, vec_y = 100\<rparr> 0 [building] 700 400) \<le> 26"
proof -
  have "castRay \<lparr>vec_x = 100, vec_y = 100\<rparr> 0 [building] 700 400 0
      \<in> set (simulateLidar \<lparr>vec_x = 100, vec_y = 100\<rparr> 0 [building] 700 400)"
    by (rule castRay_in_sweep) simp
  then have "closestObstacle (simulateLidar \<lparr>vec_x = 100, vec_y = 100\<rparr> 0 [building] 700 400)
      \<le> ray_distance (castRay \<lparr>vec_x = 100, vec_y = 100\<rparr> 0 [building] 700 400 0)"
    by (rule closestObstacle_le_ray)
  also have "\<dots> = 26"
    by (simp add: castRay_def building_ray)
  finally show ?thesis .
qed

lemma nearGoal_sweep: "closestObstacle (tickSweep 700 400 rnd nearGoalState) \<le> 26"
  using building_sweep
  by (simp add: tickSweep_def nearGoalState_def restingDrone_def dronePos_def
      updateObstacles_static1 building_def)

lemma farGoal_sweep: "closestObstacle (tickSweep 700 400 rnd farGoalState) \<le> 26"
  using building_sweep
  by (simp add: tickSweep_def farGoalState_def nearGoalState_def restingDrone_def dronePos_def
      updateObstacles_static1 building_def)

lemma openField_sweep: "closestObstacle (tickSweep 700 400 rnd openFieldState) = 120"
proof -
  have "closestObstacle (simulateLidar \<lparr>vec_x = 300, vec_y = 200\<rparr> 0 [] 700 400) = LIDAR_RANGE"
    by (rule sweep_open_field) (simp_all add: LIDAR_RANGE_def)
  then show ?thesis
    by (simp add: tickSweep_def openFieldState_def restingDrone_def dronePos_def
        updateObstacles_Nil LIDAR_RANGE_def)
qed

lemma hypot_axis [simp]: "hypot a 0 = \<bar>a\<bar>" "hypot 0 b = \<bar>b\<bar>"
  by (simp_all add: hypot_def)

lemma nearGoal_arrived: "arrived nearGoalState"
  by (simp add: arrived_def nearGoalState_def restingDrone_def)

lemma hypot_ge_left: "\<bar>a\<bar> \<le> hypot a b"
  unfolding hypot_def by (rule real_le_rsqrt) (simp add: power2_abs)

lemma farGoal_not_arrived: "\<not> arrived farGoalState"
  using hypot_ge_left [of 400 200]
  by (simp add: arrived_def farGoalState_def nearGoalState_def restingDrone_def)

lemma openField_not_arrived: "\<not> arrived openFieldState"
  using hypot_ge_left [of 200 100]
  by (simp add: arrived_def openFieldState_def restingDrone_def)

text \<open>
  Claim C7. On a tick in which the drone is navigating or avoiding and a goal is set, if
  the distance from the drone to the goal is below the arrival threshold (20), then on
  that same tick the state becomes idle, the target is cleared and the path is emptied.
\<close>

theorem arrival_clears_goal:
  assumes "dr_state (st_drone s) = Navigating \<or> dr_state (st_drone s) = Avoiding"
    and "st_target s = Some target"
    and "hypot (vec_x target - dr_x (st_drone s)) (vec_y target - dr_y (st_drone s)) < 20"
  shows "dr_state (st_drone (animate algorithmMode speed w h rnd s)) = Idle \<and>
         st_target (animate algorithmMode speed w h rnd s) = None \<and>
         st_path (animate algorithmMode speed w h rnd s) = []"
proof -
  from assms(2,3) have "arrived s" by (simp add: arrived_def)
  with assms(1) show ?thesis by (rule animate_arrival)
qed

theorem arrival_clears_goal_witness:
  "dr_state (st_drone (animate Astar 0.6 700 400 (\<lambda>k. 0) nearGoalState)) = Idle \<and>
   st_target (animate Astar 0.6 700 400 (\<lambda>k. 0) nearGoalState) = None \<and>
   st_path (animate Astar 0.6 700 400 (\<lambda>k. 0) nearGoalState) = []"
proof -
  have a: "dr_state (st_drone nearGoalState) = Navigating \<or>
      dr_state (st_drone nearGoalState) = Avoiding"
    by (simp add: nearGoalState_def restingDrone_def)
  have b: "st_target nearGoalState = Some \<lparr>vec_x = 110, vec_y = 100\<rparr>"
    by (simp add: nearGoalState_def)
  have c: "hypot (vec_x \<lparr>vec_x = 110, vec_y = 100\<rparr> - dr_x (st_drone nearGoalState))
      (vec_y \<lparr>vec_x = 110, vec_y = 100\<rparr> - dr_y (st_drone nearGoalState)) < 20"
    by (simp add: nearGoalState_def restingDrone_def)
  show ?thesis by (rule arrival_clears_goal [OF a b c])
qed

text \<open>
  Claim C6, as stated, fails: a navigating drone that is within the arrival threshold of
  its goal while the sweep reports an obstacle nearer than the safe distance is idle after
  the tick, not avoiding. The arrival check runs after the sensor transitions of the same
  tick.
\<close>

theorem navigating_near_goal_counterexample:
  "dr_state (st_drone nearGoalState) = Navigating \<and>
   closestObstacle (tickSweep 700 400 (\<lambda>k. 0) nearGoalState) < SAFE_DISTANCE \<and>
   dr_state (st_drone (animate Astar 0.6 700 400 (\<lambda>k. 0) nearGoalState)) \<noteq> Avoiding"
proof -
  have "dr_state (st_drone nearGoalState) = Navigating"
    by (simp add: nearGoalState_def restingDrone_def)
  moreover have "closestObstacle (tickSweep 700 400 (\<lambda>k. 0) nearGoalState) < SAFE_DISTANCE"
    using nearGoal_sweep [of "\<lambda>k. 0"] by (simp add: SAFE_DISTANCE_def)
  moreover have "dr_state (st_drone (animate Astar 0.6 700 400 (\<lambda>k. 0) nearGoalState)) = Idle"
    using animate_arrival [OF _ nearGoal_arrived] calculation(1) by simp
  ultimately show ?thesis by simp
qed

text \<open>
  Claim C6, amended. On every tick: if the drone is navigating and the minimum distance of
  the tick's sweep is below the safe distance, the state after the tick is avoiding, and
  if it is avoiding and the minimum distance exceeds 1.2 times the safe distance, the
  state after the tick is navigating; in both cases unless a goal is set and the drone is
  within the arrival threshold of it, in which case the state after the tick is idle.
\<close>

theorem sensor_transitions:
  "(dr_state (st_drone s) = Navigating \<and>
      closestObstacle (tickSweep w h rnd s) < SAFE_DISTANCE \<longrightarrow>
    dr_state (st_drone (animate algorithmMode speed w h rnd s))
      = (if arrived s then Idle else Avoiding)) \<and>
   (dr_state (st_drone s) = Avoiding \<and>
      closestObstacle (tickSweep w h rnd s) > 1.2 * SAFE_DISTANCE \<longrightarrow>
    dr_state (st_drone (animate algorithmMode speed w h rnd s))
      = (if arrived s then Idle else Navigating))"
proof (intro conjI impI)
  assume a: "dr_state (st_drone s) = Navigating \<and>
      closestObstacle (tickSweep w h rnd s) < SAFE_DISTANCE"
  show "dr_state (st_drone (animate algorithmMode speed w h rnd s))
      = (if arrived s then Idle else Avoiding)"
  proof (cases "arrived s")
    case True
    with a animate_arrival [of s algorithmMode speed w h rnd] show ?thesis by simp
  next
    case False
    with a animate_no_arrival [of s algorithmMode speed w h rnd] show ?thesis by simp
  qed
next
  assume a: "dr_state (st_drone s) = Avoiding \<and>
      closestObstacle (tickSweep w h rnd s) > 1.2 * SAFE_DISTANCE"
  show "dr_state (st_drone (animate algorithmMode speed w h rnd s))
      = (if arrived s then Idle else Navigating)"
  proof (cases "arrived s")
    case True
    with a animate_arrival [of s algorithmMode speed w h rnd] show ?thesis by simp
  next
    case False
    with a animate_no_arrival [of s algorithmMode speed w h rnd] show ?thesis
      by (simp add: SAFE_DISTANCE_def)
  qed
qed

theorem sensor_transitions_witness:
  "dr_state (st_drone (animate Astar 0.6 700 400 (\<lambda>k. 0) farGoalState)) = Avoiding \<and>
   dr_state (st_drone (animate Astar 0.6 700 400 (\<lambda>k. 0) openFieldState)) = Navigating"
proof -
  have "dr_state (st_drone farGoalState) = Navigating \<and>
      closestObstacle (tickSweep 700 400 (\<lambda>k. 0) farGoalState) < SAFE_DISTANCE"
    using farGoal_sweep [of "\<lambda>k. 0"]
    by (simp add: SAFE_DISTANCE_def farGoalState_def nearGoalState_def restingDrone_def)
  moreover have "dr_state (st_drone openFieldState) = Avoiding"
    by (simp add: openFieldState_def restingDrone_def)
  moreover have "closestObstacle (tickSweep 700 400 (\<lambda>k. 0) openFieldState)
      > 1.2 * SAFE_DISTANCE"
    by (simp add: openField_sweep SAFE_DISTANCE_def)
  ultimately show ?thesis
    using sensor_transitions [of farGoalState 700 400 "\<lambda>k. 0" Astar "0.6"]
      sensor_transitions [of openFieldState 700 400 "\<lambda>k. 0" Astar "0.6"]
      farGoal_not_arrived openField_not_arrived
    by simp
qed

subsection \<open>The tree planner\<close>

lemma hypot_nonneg [simp]: "0 \<le> hypot a b"
  by (simp add: hypot_def)



lemma nearestScan_range:
  "nearestScan sample ns idx nearestIdx nearestDist = nearestIdx \<or>
   (idx \<le> nearestScan sample ns idx nearestIdx nearestDist \<and>
    nearestScan sample ns idx nearestIdx nearestDist < idx + length ns)"
proof (induction ns arbitrary: idx nearestIdx nearestDist)
  case Nil
  show ?case by simp
next
  case (Cons node rest)
  let ?d = "hypot (vec_x (tn_point node) - vec_x sample) (vec_y (tn_point node) - vec_y sample)"
  show ?case
  proof (cases "case nearestDist of None \<Rightarrow> True | Some nd \<Rightarrow> ?d < nd")
    case True
    then have "nearestScan sample (node # rest) idx nearestIdx nearestDist
        = nearestScan sample rest (Suc idx) idx (Some ?d)"
      by (simp add: Let_def)
    with Cons.IH [of "Suc idx" idx "Some ?d"] show ?thesis by auto
  next
    case False
    then have "nearestScan sample (node # rest) idx nearestIdx nearestDist
        = nearestScan sample rest (Suc idx) nearestIdx nearestDist"
      by (simp add: Let_def)
    with Cons.IH [of "Suc idx" nearestIdx nearestDist] show ?thesis by auto
  qed
qed

lemma nearestIndex_less: "tree \<noteq> [] \<Longrightarrow> nearestIndex sample tree < length tree"
  using nearestScan_range [of sample tree 0 0 None] by (auto simp: nearestIndex_def)

lemma rrtLoop_end:
  "\<not> i < maxIterations \<Longrightarrow>
     rrtLoop goal obstacles w h rnd i k tree treeEdges
       = Some \<lparr>rr_path = [], rr_tree = treeEdges, rr_nodesExplored = length tree\<rparr>"
  by (subst rrtLoop.simps) simp

lemma rrtLoop_reject:
  "i < maxIterations \<Longrightarrow> rejected obstacles w h tree (fst (rrtSample goal w h rnd k)) \<Longrightarrow>
     rrtLoop goal obstacles w h rnd i k tree treeEdges
       = rrtLoop goal obstacles w h rnd (Suc i) (snd (rrtSample goal w h rnd k)) tree treeEdges"
  by (subst rrtLoop.simps) (auto simp: Let_def rejected_def extension_def)

lemma rrtLoop_extend:
  "i < maxIterations \<Longrightarrow> \<not> rejected obstacles w h tree (fst (rrtSample goal w h rnd k)) \<Longrightarrow>
   \<not> hypot (vec_x (extension tree (fst (rrtSample goal w h rnd k))) - vec_x goal)
           (vec_y (extension tree (fst (rrtSample goal w h rnd k))) - vec_y goal) < stepSize \<Longrightarrow>
     rrtLoop goal obstacles w h rnd i k tree treeEdges
       = rrtLoop goal obstacles w h rnd (Suc i) (snd (rrtSample goal w h rnd k))
           (tree @ [\<lparr>tn_point = extension tree (fst (rrtSample goal w h rnd k)),
                     tn_parent = int (nearestIndex (fst (rrtSample goal w h rnd k)) tree)\<rparr>])
           (treeEdges @ [\<lparr>edge_from = tn_point (tree ! nearestIndex (fst (rrtSample goal w h rnd k)) tree),
                          edge_to = extension tree (fst (rrtSample goal w h rnd k))\<rparr>])"
  by (subst rrtLoop.simps) (auto simp: Let_def rejected_def extension_def)

lemma rrtLoop_reach:
  "i < maxIterations \<Longrightarrow> \<not> rejected obstacles w h tree (fst (rrtSample goal w h rnd k)) \<Longrightarrow>
   hypot (vec_x (extension tree (fst (rrtSample goal w h rnd k))) - vec_x goal)
         (vec_y (extension tree (fst (rrtSample goal w h rnd k))) - vec_y goal) < stepSize \<Longrightarrow>
     rrtLoop goal obstacles w h rnd i k tree treeEdges
       = map_option
           (\<lambda>path. \<lparr>rr_path = path,
              rr_tree = treeEdges @ [\<lparr>edge_from = tn_point (tree ! nearestIndex (fst (rrtSample goal w h rnd k)) tree),
                          edge_to = extension tree (fst (rrtSample goal w h rnd k))\<rparr>],
              rr_nodesExplored = Suc (length tree)\<rparr>)
           (walkParents
              (tree @ [\<lparr>tn_point = extension tree (fst (rrtSample goal w h rnd k)),
                        tn_parent = int (nearestIndex (fst (rrtSample goal w h rnd k)) tree)\<rparr>])
              (length tree) [goal, extension tree (fst (rrtSample goal w h rnd k))])"
  by (subst rrtLoop.simps) (auto simp: Let_def rejected_def extension_def)

text \<open>A tree from which every sample of the stream is rejected never grows again: the
  budget runs out and the planner fails.\<close>

lemma rrtLoop_stuck:
  assumes "\<forall>k. rejected obstacles w h tree (fst (rrtSample goal w h rnd k))"
  shows "rrtLoop goal obstacles w h rnd i k tree treeEdges
       = Some \<lparr>rr_path = [], rr_tree = treeEdges, rr_nodesExplored = length tree\<rparr>"
proof (induction "maxIterations - i" arbitrary: i k)
  case 0
  then show ?case by (intro rrtLoop_end) simp
next
  case (Suc n)
  then have i: "i < maxIterations" and n: "n = maxIterations - Suc i" by simp_all
  from assms have "rejected obstacles w h tree (fst (rrtSample goal w h rnd k))" by blast
  from rrtLoop_reject [OF i this] Suc.hyps(1) [OF n] show ?case by simp
qed

lemma atan2_pos_axis: "0 < x \<Longrightarrow> atan2 0 x = 0"
  by (simp add: atan2_def)

lemma steer_right:
  "vec_x nearest < vec_x sample \<Longrightarrow> vec_y sample = vec_y nearest \<Longrightarrow>
     steer nearest sample = \<lparr>vec_x = vec_x nearest + 25, vec_y = vec_y nearest\<rparr>"
  by (simp add: steer_def Let_def atan2_pos_axis stepSize_def)

lemma hasLineOfSight_iff:
  "hasLineOfSight a b obstacles \<longleftrightarrow>
     nat \<lceil>hypot (vec_x b - vec_x a) (vec_y b - vec_y a) / 5\<rceil> = 0 \<or>
     (\<forall>i \<le> nat \<lceil>hypot (vec_x b - vec_x a) (vec_y b - vec_y a) / 5\<rceil>.
        sampleFree a b obstacles (nat \<lceil>hypot (vec_x b - vec_x a) (vec_y b - vec_y a) / 5\<rceil>) i)"
proof -
  have "list_all P [0..<Suc n] \<longleftrightarrow> (\<forall>i \<le> n. P i)" for P :: "nat \<Rightarrow> bool" and n
    unfolding list_all_iff set_upt by (auto simp: less_Suc_eq_le)
  then show ?thesis
    unfolding hasLineOfSight_def Let_def by (cases "nat \<lceil>hypot (vec_x b - vec_x a) (vec_y b - vec_y a) / 5\<rceil> = 0") simp_all
qed

lemma hasLineOfSight_blocked:
  assumes "nat \<lceil>hypot (vec_x b - vec_x a) (vec_y b - vec_y a) / 5\<rceil> = steps"
    and "0 < steps" and "i \<le> steps" and "\<not> sampleFree a b obstacles steps i"
  shows "\<not> hasLineOfSight a b obstacles"
  unfolding hasLineOfSight_iff assms(1) using assms(2-4) by auto

lemma hasLineOfSight_free:
  assumes "nat \<lceil>hypot (vec_x b - vec_x a) (vec_y b - vec_y a) / 5\<rceil> = steps"
    and "\<And>i. i \<le> steps \<Longrightarrow> sampleFree a b obstacles steps i"
  shows "hasLineOfSight a b obstacles"
  unfolding hasLineOfSight_iff assms(1) using assms(2) by auto

subsection \<open>A goal behind walls\<close>

lemma inflatedHit_walls:
  "list_ex (inflatedHit px py) walls \<longleftrightarrow>
     238 < px \<and> px < 362 \<and> 138 < py \<and> py < 262 \<and>
     \<not> (272 \<le> px \<and> px \<le> 328 \<and> 172 \<le> py \<and> py \<le> 228)"
  by (auto simp: walls_def wall_def inflatedHit_def DRONE_RADIUS_def)

lemma goal_biased_sample: "rrtSample goal w h (\<lambda>k. 0) k = (goal, k + 1)"
  by (simp add: rrtSample_def goalBias_def)

lemma first_extension:
  "extension [\<lparr>tn_point = outsideStart, tn_parent = - 1\<rparr>] walledGoal
     = \<lparr>vec_x = 225, vec_y = 200\<rparr>"
  by (simp add: extension_def nearestIndex_def steer_right outsideStart_def walledGoal_def)

lemma first_extension_free:
  "hasLineOfSight outsideStart \<lparr>vec_x = 225, vec_y = 200\<rparr> walls"
proof (rule hasLineOfSight_free [where steps = 5])
  show "nat \<lceil>hypot (vec_x \<lparr>vec_x = 225, vec_y = 200\<rparr> - vec_x outsideStart)
      (vec_y \<lparr>vec_x = 225, vec_y = 200\<rparr> - vec_y outsideStart) / 5\<rceil> = 5"
    by (simp add: outsideStart_def)
next
  fix i :: nat assume "i \<le> 5"
  then have "real i \<le> 5" by simp
  then show "sampleFree outsideStart \<lparr>vec_x = 225, vec_y = 200\<rparr> walls 5 i"
    by (simp add: sampleFree_def Let_def inflatedHit_walls outsideStart_def)
qed

lemma second_nearest: "nearestIndex walledGoal grownTree = 1"
  by (simp add: nearestIndex_def grownTree_def walledGoal_def outsideStart_def Let_def)

lemma grownTree_nearest: "tn_point (grownTree ! 1) = \<lparr>vec_x = 225, vec_y = 200\<rparr>"
  by (simp add: grownTree_def)

lemma second_extension: "extension grownTree walledGoal = \<lparr>vec_x = 250, vec_y = 200\<rparr>"
proof -
  have "extension grownTree walledGoal = steer \<lparr>vec_x = 225, vec_y = 200\<rparr> walledGoal"
    by (simp only: extension_def second_nearest grownTree_nearest)
  also have "\<dots> = \<lparr>vec_x = 250, vec_y = 200\<rparr>"
    by (simp add: steer_right walledGoal_def)
  finally show ?thesis .
qed

lemma second_extension_blocked:
  "\<not> hasLineOfSight \<lparr>vec_x = 225, vec_y = 200\<rparr> \<lparr>vec_x = 250, vec_y = 200\<rparr> walls"
proof (rule hasLineOfSight_blocked [where steps = 5 and i = 3])
  show "nat \<lceil>hypot (vec_x \<lparr>vec_x = 250, vec_y = 200\<rparr> - vec_x \<lparr>vec_x = 225, vec_y = 200\<rparr>)
      (vec_y \<lparr>vec_x = 250, vec_y = 200\<rparr> - vec_y \<lparr>vec_x = 225, vec_y = 200\<rparr>) / 5\<rceil> = 5"
    by simp
  show "\<not> sampleFree \<lparr>vec_x = 225, vec_y = 200\<rparr> \<lparr>vec_x = 250, vec_y = 200\<rparr> walls 5 3"
    by (simp add: sampleFree_def Let_def inflatedHit_walls)
qed simp_all

lemma grownTree_stuck: "rejected walls 700 400 grownTree walledGoal"
  unfolding rejected_def second_extension second_nearest grownTree_nearest
  using second_extension_blocked by simp

text \<open>With a stream that always takes the goal as the sample, the tree grows by one node
  towards the goal and is then blocked by the wall for the rest of the 1500 iterations.\<close>

lemma walled_run:
  "rrt outsideStart walledGoal walls 700 400 (\<lambda>k. 0)
     = Some \<lparr>rr_path = [],
             rr_tree = [\<lparr>edge_from = outsideStart, edge_to = \<lparr>vec_x = 225, vec_y = 200\<rparr>\<rparr>],
             rr_nodesExplored = 2\<rparr>"
proof -
  let ?root = "\<lparr>tn_point = outsideStart, tn_parent = - 1\<rparr>"
  have smp: "fst (rrtSample walledGoal 700 400 (\<lambda>k. 0) 0) = walledGoal"
    "snd (rrtSample walledGoal 700 400 (\<lambda>k. 0) 0) = 1"
    by (simp_all add: goal_biased_sample)
  have near: "nearestIndex walledGoal [?root] = 0"
    by (simp add: nearestIndex_def)
  have acc: "\<not> rejected walls 700 400 [?root] (fst (rrtSample walledGoal 700 400 (\<lambda>k. 0) 0))"
    unfolding smp rejected_def first_extension near
    using first_extension_free by simp
  have "hypot (225 - vec_x walledGoal) (200 - vec_y walledGoal) = 75"
    by (simp add: walledGoal_def)
  then have far: "\<not> hypot (vec_x (extension [?root] (fst (rrtSample walledGoal 700 400 (\<lambda>k. 0) 0)))
                - vec_x walledGoal)
             (vec_y (extension [?root] (fst (rrtSample walledGoal 700 400 (\<lambda>k. 0) 0)))
                - vec_y walledGoal) < stepSize"
    unfolding smp first_extension by (simp add: stepSize_def)
  have "rrt outsideStart walledGoal walls 700 400 (\<lambda>k. 0)
      = rrtLoop walledGoal walls 700 400 (\<lambda>k. 0) 1 1 grownTree
          [\<lparr>edge_from = outsideStart, edge_to = \<lparr>vec_x = 225, vec_y = 200\<rparr>\<rparr>]"
    unfolding rrt_def
    by (subst rrtLoop_extend [OF _ acc far])
       (simp_all add: maxIterations_def smp first_extension near grownTree_def)
  also have "\<dots> = Some \<lparr>rr_path = [],
      rr_tree = [\<lparr>edge_from = outsideStart, edge_to = \<lparr>vec_x = 225, vec_y = 200\<rparr>\<rparr>],
      rr_nodesExplored = length grownTree\<rparr>"
    by (rule rrtLoop_stuck) (simp add: goal_biased_sample grownTree_stuck)
  finally show ?thesis by (simp add: grownTree_def)
qed












subsection \<open>Failed requests to the tree planner\<close>

lemma finishClick_failed:
  "st_path s = [] \<Longrightarrow> algorithmMode \<noteq> Apf \<Longrightarrow>
     st_target (finishClick algorithmMode s) = None \<and>
     st_path (finishClick algorithmMode s) = [] \<and>
     dr_state (st_drone (finishClick algorithmMode s)) = Idle"
  by (simp add: finishClick_def Let_def)

lemma onClick_rrt_failed:
  assumes "resolveClick (st_obstacles s) w h clickPos = Some goal"
    and "rrt (dronePos (st_drone s)) goal (st_obstacles s) w h rnd = Some result"
    and "rr_path result = []"
  shows "\<exists>s'. onClick Rrt w h rnd clickPos s = Some s' \<and> st_target s' = None \<and>
           st_path s' = [] \<and> dr_state (st_drone s') = Idle"
  using assms by (simp add: onClick_def Let_def finishClick_failed)

lemma walledGoal_click: "resolveClick walls 700 400 walledGoal = Some walledGoal"
  by (simp add: resolveClick_def walls_def wall_def walledGoal_def nearObstacle_def)

text \<open>
  Claim C3, as stated, fails: no failed request in tree-planner mode leaves the target
  set. The handler clears the target whenever the path is empty and the mode is not the
  field planner.
\<close>

theorem failed_rrt_request_counterexample:
  "\<not> (\<exists>s w h rnd clickPos goal result s'.
        resolveClick (st_obstacles s) w h clickPos = Some goal \<and>
        rrt (dronePos (st_drone s)) goal (st_obstacles s) w h rnd = Some result \<and>
        rr_path result = [] \<and>
        onClick Rrt w h rnd clickPos s = Some s' \<and> st_target s' \<noteq> None)"
proof
  assume "\<exists>s w h rnd clickPos goal result s'.
        resolveClick (st_obstacles s) w h clickPos = Some goal \<and>
        rrt (dronePos (st_drone s)) goal (st_obstacles s) w h rnd = Some result \<and>
        rr_path result = [] \<and>
        onClick Rrt w h rnd clickPos s = Some s' \<and> st_target s' \<noteq> None"
  then obtain s w h rnd clickPos goal result s' where
    a: "resolveClick (st_obstacles s) w h clickPos = Some goal"
      "rrt (dronePos (st_drone s)) goal (st_obstacles s) w h rnd = Some result"
      "rr_path result = []"
    and b: "onClick Rrt w h rnd clickPos s = Some s'" "st_target s' \<noteq> None"
    by blast
  from onClick_rrt_failed [OF a] b show False by auto
qed

text \<open>
  Claim C3, amended. When a goal request in tree-planner mode fails (the planner returns
  an empty path), the handler returns with the stored target cleared, the path empty and
  the drone idle.
\<close>

theorem failed_rrt_request_clears_goal:
  assumes "resolveClick (st_obstacles s) w h clickPos = Some goal"
    and "rrt (dronePos (st_drone s)) goal (st_obstacles s) w h rnd = Some result"
    and "rr_path result = []"
  shows "\<exists>s'. onClick Rrt w h rnd clickPos s = Some s' \<and> st_target s' = None \<and>
           st_path s' = [] \<and> dr_state (st_drone s') = Idle"
  using assms by (rule onClick_rrt_failed)

theorem failed_rrt_request_clears_goal_witness:
  "\<exists>s'. onClick Rrt 700 400 (\<lambda>k. 0) walledGoal walledState = Some s' \<and> st_target s' = None \<and>
      st_path s' = [] \<and> dr_state (st_drone s') = Idle"
proof -
  have a: "resolveClick (st_obstacles walledState) 700 400 walledGoal = Some walledGoal"
    by (simp add: walledState_def walledGoal_click)
  have b: "rrt (dronePos (st_drone walledState)) walledGoal (st_obstacles walledState) 700 400
      (\<lambda>k. 0) = Some \<lparr>rr_path = [],
             rr_tree = [\<lparr>edge_from = outsideStart, edge_to = \<lparr>vec_x = 225, vec_y = 200\<rparr>\<rparr>],
             rr_nodesExplored = 2\<rparr>"
    using walled_run by (simp add: walledState_def restingDrone_def dronePos_def outsideStart_def)
  show ?thesis by (rule failed_rrt_request_clears_goal [OF a b]) simp
qed

subsection \<open>The tree planner's path\<close>

lemma hypot_eqI: "0 \<le> r \<Longrightarrow> a\<^sup>2 + b\<^sup>2 = r\<^sup>2 \<Longrightarrow> hypot a b = r"
  by (simp add: hypot_def)

lemma hypot_pos: "0 < x \<Longrightarrow> 0 < hypot x y"
proof -
  assume "0 < x"
  then have "0 < x\<^sup>2" by simp
  moreover have "0 \<le> y\<^sup>2" by simp
  ultimately have "0 < x\<^sup>2 + y\<^sup>2" by (rule add_pos_nonneg)
  then show ?thesis by (simp add: hypot_def)
qed

lemma sqrt_one_plus_ratio:
  assumes "0 < x"
  shows "sqrt (1 + (y / x)\<^sup>2) = hypot x y / x"
proof -
  from assms have "1 + (y / x)\<^sup>2 = (x\<^sup>2 + y\<^sup>2) / x\<^sup>2"
    by (simp add: power_divide add_divide_distrib)
  then have "sqrt (1 + (y / x)\<^sup>2) = sqrt (x\<^sup>2 + y\<^sup>2) / sqrt (x\<^sup>2)"
    by (simp add: real_sqrt_divide)
  with assms show ?thesis by (simp add: hypot_def)
qed

lemma cos_atan2_pos: "0 < x \<Longrightarrow> cos (atan2 y x) = x / hypot x y"
  using hypot_pos [of x y]
  by (simp add: atan2_def cos_arctan sqrt_one_plus_ratio)

lemma sin_atan2_pos: "0 < x \<Longrightarrow> sin (atan2 y x) = y / hypot x y"
  using hypot_pos [of x y]
  by (simp add: atan2_def sin_arctan sqrt_one_plus_ratio)

lemma steer_towards:
  assumes "vec_x nearest < vec_x sample"
  shows "steer nearest sample =
     \<lparr>vec_x = vec_x nearest + (vec_x sample - vec_x nearest)
         / hypot (vec_x sample - vec_x nearest) (vec_y sample - vec_y nearest) * stepSize,
      vec_y = vec_y nearest + (vec_y sample - vec_y nearest)
         / hypot (vec_x sample - vec_x nearest) (vec_y sample - vec_y nearest) * stepSize\<rparr>"
  using assms by (simp add: steer_def Let_def cos_atan2_pos sin_atan2_pos)

lemma corner_hypot: "hypot 27 36 = 45" "hypot 15 20 = 25" "hypot (- 12) (- 16) = 20"
  by (rule hypot_eqI; simp)+

lemma corner_extension:
  "extension [\<lparr>tn_point = cornerStart, tn_parent = - 1\<rparr>] cornerGoal = cornerNode"
  by (simp add: extension_def nearestIndex_def steer_towards cornerStart_def cornerGoal_def
      cornerNode_def corner_hypot stepSize_def)

lemma corner_extension_free: "hasLineOfSight cornerStart cornerNode [cornerBuilding]"
proof (rule hasLineOfSight_free [where steps = 5])
  show "nat \<lceil>hypot (vec_x cornerNode - vec_x cornerStart)
      (vec_y cornerNode - vec_y cornerStart) / 5\<rceil> = 5"
    by (simp add: cornerStart_def cornerNode_def corner_hypot)
next
  fix i :: nat assume "i \<le> 5"
  then have "real i \<le> 5" by simp
  then show "sampleFree cornerStart cornerNode [cornerBuilding] 5 i"
    by (simp add: sampleFree_def Let_def inflatedHit_def cornerBuilding_def cornerStart_def
        cornerNode_def DRONE_RADIUS_def)
qed

lemma corner_goal_edge_blocked: "\<not> hasLineOfSight cornerStart cornerGoal [cornerBuilding]"
proof (rule hasLineOfSight_blocked [where steps = 9 and i = 6])
  show "nat \<lceil>hypot (vec_x cornerGoal - vec_x cornerStart)
      (vec_y cornerGoal - vec_y cornerStart) / 5\<rceil> = 9"
    by (simp add: cornerStart_def cornerGoal_def corner_hypot)
  show "\<not> sampleFree cornerStart cornerGoal [cornerBuilding] 9 6"
    by (simp add: sampleFree_def Let_def inflatedHit_def cornerBuilding_def cornerStart_def
        cornerGoal_def DRONE_RADIUS_def)
qed simp_all

lemma corner_walk:
  "walkParents [\<lparr>tn_point = cornerStart, tn_parent = - 1\<rparr>,
                \<lparr>tn_point = cornerNode, tn_parent = 0\<rparr>] (Suc 0) [cornerGoal, cornerNode]
     = Some [cornerStart, cornerGoal, cornerNode]"
  by (subst walkParents.simps, simp, subst walkParents.simps, simp)

lemma corner_run:
  "rrt cornerStart cornerGoal [cornerBuilding] 700 400 (\<lambda>k. 1 / 10)
     = Some \<lparr>rr_path = [cornerStart, cornerGoal, cornerNode],
             rr_tree = [\<lparr>edge_from = cornerStart, edge_to = cornerNode\<rparr>],
             rr_nodesExplored = 2\<rparr>"
proof -
  let ?root = "\<lparr>tn_point = cornerStart, tn_parent = - 1\<rparr>"
  have smp: "fst (rrtSample cornerGoal 700 400 (\<lambda>k. 1 / 10) 0) = cornerGoal"
    by (simp add: rrtSample_def goalBias_def)
  have near: "nearestIndex cornerGoal [?root] = 0"
    by (simp add: nearestIndex_def)
  have acc: "\<not> rejected [cornerBuilding] 700 400 [?root]
      (fst (rrtSample cornerGoal 700 400 (\<lambda>k. 1 / 10) 0))"
    unfolding smp rejected_def corner_extension near
    using corner_extension_free by (simp add: cornerNode_def)
  have "hypot (vec_x cornerNode - vec_x cornerGoal) (vec_y cornerNode - vec_y cornerGoal) = 20"
    by (simp add: cornerNode_def cornerGoal_def corner_hypot)
  then have reach: "hypot (vec_x (extension [?root] (fst (rrtSample cornerGoal 700 400 (\<lambda>k. 1 / 10) 0)))
                - vec_x cornerGoal)
             (vec_y (extension [?root] (fst (rrtSample cornerGoal 700 400 (\<lambda>k. 1 / 10) 0)))
                - vec_y cornerGoal) < stepSize"
    unfolding smp corner_extension by (simp add: stepSize_def)
  show ?thesis
    unfolding rrt_def
    by (subst rrtLoop_reach [OF _ acc reach])
       (simp_all add: maxIterations_def smp corner_extension near corner_walk)
qed

lemma corner_goal_click: "resolveClick [cornerBuilding] 700 400 cornerGoal = Some cornerGoal"
  by (simp add: resolveClick_def cornerBuilding_def cornerGoal_def nearObstacle_def)

text \<open>
  Claim C1 fails on the code. The planner checks the edge from the nearest node to the new
  node, but the path it returns on success is the chain of ancestors followed by the goal
  and then the new node, and neither edge at the goal is checked. On the canvas of 700 by
  400, from \<open>(100, 100)\<close> to the goal \<open>(127, 136)\<close>, a valid click target beside a building
  at \<open>(128, 100)\<close> of size 20 by 20, with a first draw of 0.1: the new node is
  \<open>(115, 120)\<close>, the path is start, goal, new node, and the edge from the start to the
  goal cuts the inflated corner of the building.
\<close>

theorem rrt_goal_edge_unchecked:
  "resolveClick [cornerBuilding] 700 400 cornerGoal = Some cornerGoal \<and>
   map_option rr_path (rrt cornerStart cornerGoal [cornerBuilding] 700 400 (\<lambda>k. 1 / 10))
     = Some [cornerStart, cornerGoal, cornerNode] \<and>
   hasLineOfSight cornerStart cornerNode [cornerBuilding] \<and>
   \<not> hasLineOfSight cornerStart cornerGoal [cornerBuilding]"
  by (simp add: corner_goal_click corner_run corner_extension_free corner_goal_edge_blocked)

text \<open>What does hold of the tree planner: it always returns, every edge it records in the
  tree passed the line-of-sight test, and it fails exactly when no recorded edge ends
  within one step length of the goal.\<close>

lemma walkParents_returns:
  assumes "\<forall>j < length tree. tn_parent (tree ! j) = - 1 \<or>
             (0 \<le> tn_parent (tree ! j) \<and> nat (tn_parent (tree ! j)) < j)"
  shows "idx < length tree \<Longrightarrow> \<exists>p. walkParents tree idx path = Some p"
proof (induction idx arbitrary: path rule: less_induct)
  case (less idx)
  show ?case
  proof (cases "tn_parent (tree ! idx) = - 1")
    case True
    with less.prems show ?thesis
      by (subst walkParents.simps) simp
  next
    case False
    with assms less.prems have p: "0 \<le> tn_parent (tree ! idx)"
      "nat (tn_parent (tree ! idx)) < idx" by auto
    with less.prems have "nat (tn_parent (tree ! idx)) < length tree" by simp
    from less.IH [OF p(2) this] False p less.prems show ?thesis
      by (subst walkParents.simps) simp
  qed
qed

lemma walkParents_nonempty:
  assumes "walkParents tree idx path = Some p"
  shows "path \<noteq> [] \<longrightarrow> p \<noteq> []"
proof (rule walkParents.raw_induct
    [where P = "\<lambda>tree idx path p. path \<noteq> [] \<longrightarrow> p \<noteq> []", OF _ assms])
  fix walk :: "TreeNode list \<Rightarrow> nat \<Rightarrow> Vec2 list \<Rightarrow> Vec2 list option"
    and tree idx path p
  assume IH: "\<And>tree idx path p. walk tree idx path = Some p \<Longrightarrow> path \<noteq> [] \<longrightarrow> p \<noteq> []"
    and body: "(if idx < length tree
      then if tn_parent (tree ! idx) \<noteq> - 1
           then if 0 \<le> tn_parent (tree ! idx) \<and> nat (tn_parent (tree ! idx)) < length tree
                then walk tree (nat (tn_parent (tree ! idx)))
                       (tn_point (tree ! nat (tn_parent (tree ! idx))) # path)
                else None
           else Some path
      else None) = Some p"
  show "path \<noteq> [] \<longrightarrow> p \<noteq> []"
  proof (cases "idx < length tree \<and> tn_parent (tree ! idx) \<noteq> - 1")
    case True
    with body have "walk tree (nat (tn_parent (tree ! idx)))
        (tn_point (tree ! nat (tn_parent (tree ! idx))) # path) = Some p"
      by (auto split: if_splits)
    from IH [OF this] show ?thesis by simp
  next
    case False
    with body show ?thesis by (auto split: if_splits)
  qed
qed

lemma parentsBelow_extend:
  assumes "parentsBelow tree" "tree \<noteq> []"
  shows "parentsBelow (tree @ [\<lparr>tn_point = q, tn_parent = int (nearestIndex sample tree)\<rparr>])"
  unfolding parentsBelow_def
proof (intro allI impI)
  fix j assume j: "j < length (tree @ [\<lparr>tn_point = q, tn_parent = int (nearestIndex sample tree)\<rparr>])"
  let ?t = "tree @ [\<lparr>tn_point = q, tn_parent = int (nearestIndex sample tree)\<rparr>]"
  show "tn_parent (?t ! j) = - 1 \<or> (0 \<le> tn_parent (?t ! j) \<and> nat (tn_parent (?t ! j)) < j)"
  proof (cases "j < length tree")
    case True
    with assms(1) show ?thesis by (auto simp: parentsBelow_def nth_append)
  next
    case False
    with j have "j = length tree" by simp
    with nearestIndex_less [OF assms(2), of sample] show ?thesis by (simp add: nth_append)
  qed
qed

lemma rrtLoop_returns:
  "tree \<noteq> [] \<Longrightarrow> parentsBelow tree \<Longrightarrow>
     \<exists>r. rrtLoop goal obstacles w h rnd i k tree treeEdges = Some r"
proof (induction "maxIterations - i" arbitrary: i k tree treeEdges)
  case 0
  then have "\<not> i < maxIterations" by simp
  from rrtLoop_end [OF this] show ?case by simp
next
  case (Suc n)
  then have i: "i < maxIterations" and n: "n = maxIterations - Suc i" by simp_all
  let ?sample = "fst (rrtSample goal w h rnd k)"
  let ?q = "extension tree ?sample"
  let ?tree = "tree @ [\<lparr>tn_point = ?q, tn_parent = int (nearestIndex ?sample tree)\<rparr>]"
  have pb: "parentsBelow ?tree"
    using Suc.prems(2,1) by (rule parentsBelow_extend)
  consider (rej) "rejected obstacles w h tree ?sample"
    | (reach) "\<not> rejected obstacles w h tree ?sample"
        "hypot (vec_x ?q - vec_x goal) (vec_y ?q - vec_y goal) < stepSize"
    | (ext) "\<not> rejected obstacles w h tree ?sample"
        "\<not> hypot (vec_x ?q - vec_x goal) (vec_y ?q - vec_y goal) < stepSize"
    by blast
  then show ?case
  proof cases
    case rej
    from rrtLoop_reject [OF i rej] Suc.hyps(1) [OF n Suc.prems] show ?thesis by simp
  next
    case reach
    from pb have "\<exists>p. walkParents ?tree (length tree) [goal, ?q] = Some p"
      unfolding parentsBelow_def by (rule walkParents_returns) simp
    with rrtLoop_reach [OF i reach] show ?thesis by auto
  next
    case ext
    have "\<exists>r. rrtLoop goal obstacles w h rnd (Suc i) (snd (rrtSample goal w h rnd k)) ?tree
        (treeEdges @ [\<lparr>edge_from = tn_point (tree ! nearestIndex ?sample tree), edge_to = ?q\<rparr>])
        = Some r"
      using pb by (intro Suc.hyps(1) [OF n]) simp_all
    with rrtLoop_extend [OF i ext] show ?thesis by simp
  qed
qed

lemma rrt_returns: "\<exists>r. rrt start goal obstacles w h rnd = Some r"
  unfolding rrt_def by (rule rrtLoop_returns) (simp_all add: parentsBelow_def)

lemma rrtLoop_edges_checked:
  "\<forall>e \<in> set treeEdges. hasLineOfSight (edge_from e) (edge_to e) obstacles \<Longrightarrow>
   rrtLoop goal obstacles w h rnd i k tree treeEdges = Some r \<Longrightarrow>
     \<forall>e \<in> set (rr_tree r). hasLineOfSight (edge_from e) (edge_to e) obstacles"
proof (induction "maxIterations - i" arbitrary: i k tree treeEdges)
  case 0
  then have "\<not> i < maxIterations" by simp
  from rrtLoop_end [OF this] 0 show ?case by auto
next
  case (Suc n)
  then have i: "i < maxIterations" and n: "n = maxIterations - Suc i" by simp_all
  let ?sample = "fst (rrtSample goal w h rnd k)"
  let ?q = "extension tree ?sample"
  let ?edges = "treeEdges @ [\<lparr>edge_from = tn_point (tree ! nearestIndex ?sample tree),
      edge_to = ?q\<rparr>]"
  consider (rej) "rejected obstacles w h tree ?sample"
    | (reach) "\<not> rejected obstacles w h tree ?sample"
        "hypot (vec_x ?q - vec_x goal) (vec_y ?q - vec_y goal) < stepSize"
    | (ext) "\<not> rejected obstacles w h tree ?sample"
        "\<not> hypot (vec_x ?q - vec_x goal) (vec_y ?q - vec_y goal) < stepSize"
    by blast
  then show ?case
  proof cases
    case rej
    from rrtLoop_reject [OF i rej] Suc.prems Suc.hyps(1) [OF n] show ?thesis by simp
  next
    case reach
    then have "\<forall>e \<in> set ?edges. hasLineOfSight (edge_from e) (edge_to e) obstacles"
      using Suc.prems(1) by (auto simp: rejected_def)
    with rrtLoop_reach [OF i reach] Suc.prems(2) show ?thesis by auto
  next
    case ext
    then have "\<forall>e \<in> set ?edges. hasLineOfSight (edge_from e) (edge_to e) obstacles"
      using Suc.prems(1) by (auto simp: rejected_def)
    moreover from rrtLoop_extend [OF i ext] Suc.prems(2)
    have "rrtLoop goal obstacles w h rnd (Suc i) (snd (rrtSample goal w h rnd k))
        (tree @ [\<lparr>tn_point = ?q, tn_parent = int (nearestIndex ?sample tree)\<rparr>]) ?edges = Some r"
      by simp
    ultimately show ?thesis by (rule Suc.hyps(1) [OF n])
  qed
qed

lemma rrt_edges_checked:
  "rrt start goal obstacles w h rnd = Some r \<Longrightarrow>
     \<forall>e \<in> set (rr_tree r). hasLineOfSight (edge_from e) (edge_to e) obstacles"
  using rrtLoop_edges_checked [of "[]" obstacles goal w h rnd 0 0
      "[\<lparr>tn_point = start, tn_parent = - 1\<rparr>]" r]
  by (simp add: rrt_def)

lemma rrtLoop_fails_iff:
  "\<forall>e \<in> set treeEdges. stepSize \<le> hypot (vec_x (edge_to e) - vec_x goal)
      (vec_y (edge_to e) - vec_y goal) \<Longrightarrow>
   rrtLoop goal obstacles w h rnd i k tree treeEdges = Some r \<Longrightarrow>
     rr_path r = [] \<longleftrightarrow>
       (\<forall>e \<in> set (rr_tree r). stepSize \<le> hypot (vec_x (edge_to e) - vec_x goal)
          (vec_y (edge_to e) - vec_y goal))"
proof (induction "maxIterations - i" arbitrary: i k tree treeEdges)
  case 0
  then have "\<not> i < maxIterations" by simp
  from rrtLoop_end [OF this] 0 show ?case by auto
next
  case (Suc n)
  then have i: "i < maxIterations" and n: "n = maxIterations - Suc i" by simp_all
  let ?sample = "fst (rrtSample goal w h rnd k)"
  let ?q = "extension tree ?sample"
  let ?tree = "tree @ [\<lparr>tn_point = ?q, tn_parent = int (nearestIndex ?sample tree)\<rparr>]"
  let ?edges = "treeEdges @ [\<lparr>edge_from = tn_point (tree ! nearestIndex ?sample tree),
      edge_to = ?q\<rparr>]"
  consider (rej) "rejected obstacles w h tree ?sample"
    | (reach) "\<not> rejected obstacles w h tree ?sample"
        "hypot (vec_x ?q - vec_x goal) (vec_y ?q - vec_y goal) < stepSize"
    | (ext) "\<not> rejected obstacles w h tree ?sample"
        "\<not> hypot (vec_x ?q - vec_x goal) (vec_y ?q - vec_y goal) < stepSize"
    by blast
  then show ?case
  proof cases
    case rej
    from rrtLoop_reject [OF i rej] Suc.prems Suc.hyps(1) [OF n] show ?thesis by simp
  next
    case reach
    from rrtLoop_reach [OF i reach] Suc.prems(2)
    obtain p where p: "walkParents ?tree (length tree) [goal, ?q] = Some p"
      and r: "r = \<lparr>rr_path = p, rr_tree = ?edges, rr_nodesExplored = Suc (length tree)\<rparr>"
      by auto
    from walkParents_nonempty [OF p] have "p \<noteq> []" by simp
    with r reach(2) show ?thesis by (auto simp: not_le)
  next
    case ext
    then have "\<forall>e \<in> set ?edges. stepSize \<le> hypot (vec_x (edge_to e) - vec_x goal)
        (vec_y (edge_to e) - vec_y goal)"
      using Suc.prems(1) by (auto simp: not_less)
    moreover from rrtLoop_extend [OF i ext] Suc.prems(2)
    have "rrtLoop goal obstacles w h rnd (Suc i) (snd (rrtSample goal w h rnd k)) ?tree ?edges
        = Some r"
      by simp
    ultimately show ?thesis by (rule Suc.hyps(1) [OF n])
  qed
qed

lemma rrt_fails_iff:
  "rrt start goal obstacles w h rnd = Some r \<Longrightarrow>
     rr_path r = [] \<longleftrightarrow>
       (\<forall>e \<in> set (rr_tree r). stepSize \<le> hypot (vec_x (edge_to e) - vec_x goal)
          (vec_y (edge_to e) - vec_y goal))"
  using rrtLoop_fails_iff [of "[]" goal obstacles w h rnd 0 0
      "[\<lparr>tn_point = start, tn_parent = - 1\<rparr>]" r]
  by (simp add: rrt_def)

subsection \<open>A goal in a pocket\<close>

text \<open>Sealing in the goal alone does not make the planner fail. Around the goal
  \<open>(321, 202)\<close> the free points form the pocket \<open>[312, 325] \<times> [195, 207]\<close>, and the frame
  around it, 5 wide, is covered by inflated bounds on all sides. The first extension from
  the start ends outside the pocket, at \<open>(305, 214)\<close>, within one step length of the goal,
  and the planner returns a path whose edge to the goal passes through the wall.\<close>

lemma pocket_frame_covered:
  assumes "307 < px" "px < 330" "190 < py" "py < 212"
    and "\<not> (312 \<le> px \<and> px \<le> 325 \<and> 195 \<le> py \<and> py \<le> 207)"
  shows "list_ex (inflatedHit px py) pocketBoxes"
  using assms by (auto simp: pocketBoxes_def wall_def inflatedHit_def DRONE_RADIUS_def)

lemma pocket_hypot: "hypot 36 (- 27) = 45" "hypot 20 (- 15) = 25" "hypot (- 16) 12 = 20"
  "hypot 16 (- 12) = 20"
  by (rule hypot_eqI; simp)+

lemma pocket_extension:
  "extension [\<lparr>tn_point = pocketStart, tn_parent = - 1\<rparr>] pocketGoal = pocketNode"
  by (simp add: extension_def nearestIndex_def steer_towards pocketStart_def pocketGoal_def
      pocketNode_def pocket_hypot stepSize_def)

lemma pocket_extension_free: "hasLineOfSight pocketStart pocketNode pocketBoxes"
proof (rule hasLineOfSight_free [where steps = 5])
  show "nat \<lceil>hypot (vec_x pocketNode - vec_x pocketStart)
      (vec_y pocketNode - vec_y pocketStart) / 5\<rceil> = 5"
    by (simp add: pocketStart_def pocketNode_def pocket_hypot)
next
  fix i :: nat assume "i \<le> 5"
  then have "real i \<le> 5" by simp
  then show "sampleFree pocketStart pocketNode pocketBoxes 5 i"
    by (simp add: sampleFree_def Let_def inflatedHit_def pocketBoxes_def wall_def
        pocketStart_def pocketNode_def DRONE_RADIUS_def)
qed

lemma pocket_goal_edge_blocked: "\<not> hasLineOfSight pocketNode pocketGoal pocketBoxes"
proof (rule hasLineOfSight_blocked [where steps = 4 and i = 1])
  show "nat \<lceil>hypot (vec_x pocketGoal - vec_x pocketNode)
      (vec_y pocketGoal - vec_y pocketNode) / 5\<rceil> = 4"
    by (simp add: pocketNode_def pocketGoal_def pocket_hypot)
  show "\<not> sampleFree pocketNode pocketGoal pocketBoxes 4 1"
    by (simp add: sampleFree_def Let_def inflatedHit_def pocketBoxes_def wall_def
        pocketNode_def pocketGoal_def DRONE_RADIUS_def)
qed simp_all

lemma pocket_walk:
  "walkParents [\<lparr>tn_point = pocketStart, tn_parent = - 1\<rparr>,
                \<lparr>tn_point = pocketNode, tn_parent = 0\<rparr>] (Suc 0) [pocketGoal, pocketNode]
     = Some [pocketStart, pocketGoal, pocketNode]"
  by (subst walkParents.simps, simp, subst walkParents.simps, simp)

lemma pocket_run:
  "rrt pocketStart pocketGoal pocketBoxes 700 400 (\<lambda>k. 1 / 10)
     = Some \<lparr>rr_path = [pocketStart, pocketGoal, pocketNode],
             rr_tree = [\<lparr>edge_from = pocketStart, edge_to = pocketNode\<rparr>],
             rr_nodesExplored = 2\<rparr>"
proof -
  let ?root = "\<lparr>tn_point = pocketStart, tn_parent = - 1\<rparr>"
  have smp: "fst (rrtSample pocketGoal 700 400 (\<lambda>k. 1 / 10) 0) = pocketGoal"
    by (simp add: rrtSample_def goalBias_def)
  have near: "nearestIndex pocketGoal [?root] = 0"
    by (simp add: nearestIndex_def)
  have acc: "\<not> rejected pocketBoxes 700 400 [?root]
      (fst (rrtSample pocketGoal 700 400 (\<lambda>k. 1 / 10) 0))"
    unfolding smp rejected_def pocket_extension near
    using pocket_extension_free by (simp add: pocketNode_def)
  have "hypot (vec_x pocketNode - vec_x pocketGoal) (vec_y pocketNode - vec_y pocketGoal) = 20"
    by (simp add: pocketNode_def pocketGoal_def pocket_hypot)
  then have reach: "hypot (vec_x (extension [?root] (fst (rrtSample pocketGoal 700 400 (\<lambda>k. 1 / 10) 0)))
                - vec_x pocketGoal)
             (vec_y (extension [?root] (fst (rrtSample pocketGoal 700 400 (\<lambda>k. 1 / 10) 0)))
                - vec_y pocketGoal) < stepSize"
    unfolding smp pocket_extension by (simp add: stepSize_def)
  show ?thesis
    unfolding rrt_def
    by (subst rrtLoop_reach [OF _ acc reach])
       (simp_all add: maxIterations_def smp pocket_extension near pocket_walk)
qed

subsection \<open>The field planner\<close>

lemma magnitudeOf_add:
  "magnitudeOf \<lparr>vec_x = vec_x u + a, vec_y = vec_y u + b\<rparr> \<le> magnitudeOf u + hypot a b"
  by (simp add: magnitudeOf_def hypot_def real_sqrt_sum_squares_triangle_ineq)

lemma hypot_scaled: "0 \<le> m \<Longrightarrow> hypot (m * a / r) (m * b / r) = m * (hypot a b / \<bar>r\<bar>)"
proof -
  assume m: "0 \<le> m"
  have "(m * a / r)\<^sup>2 + (m * b / r)\<^sup>2 = (m / \<bar>r\<bar>)\<^sup>2 * (a\<^sup>2 + b\<^sup>2)"
    by (simp add: power_divide power_mult_distrib add_divide_distrib algebra_simps)
  then have "hypot (m * a / r) (m * b / r) = \<bar>m / \<bar>r\<bar>\<bar> * hypot a b"
    by (simp add: hypot_def real_sqrt_mult)
  with m show ?thesis by simp
qed

lemma hypot_direction: "0 \<le> m \<Longrightarrow> hypot (m * a / hypot a b) (m * b / hypot a b) \<le> m"
proof -
  assume m: "0 \<le> m"
  have "hypot a b / \<bar>hypot a b\<bar> \<le> 1" by simp
  with m have "m * (hypot a b / \<bar>hypot a b\<bar>) \<le> m * 1"
    by (intro mult_left_mono)
  with m show ?thesis by (simp add: hypot_scaled)
qed

lemma repulsion_nonneg: "0 < d \<Longrightarrow> d < 80 \<Longrightarrow> 0 \<le> repulsion d"
  by (simp add: repulsion_def field_simps)

lemma repulsion_le:
  assumes "0 < \<delta>" "\<delta> \<le> d"
  shows "repulsion d \<le> 500 / \<delta> ^ 3"
proof -
  from assms have d: "0 < d" by simp
  have "repulsion d \<le> 500 * (1 / d) / (d * d)"
    unfolding repulsion_def using d
    by (intro divide_right_mono mult_left_mono) simp_all
  also have "\<dots> = 500 / d ^ 3" by (simp add: power3_eq_cube)
  also have "\<dots> \<le> 500 / \<delta> ^ 3"
    using assms by (intro divide_left_mono power_mono mult_pos_pos zero_less_power) simp_all
  finally show ?thesis .
qed

lemma apfRepulse_cases:
  "apfRepulse drone rep obs =
     (if apfClearance drone obs < 80 \<and> apfClearance drone obs > 0 then
        \<lparr>vec_x = vec_x rep + repulsion (apfClearance drone obs)
             * (vec_x drone - (ob_x obs + ob_width obs / 2))
             / hypot (vec_x drone - (ob_x obs + ob_width obs / 2))
                     (vec_y drone - (ob_y obs + ob_height obs / 2)),
         vec_y = vec_y rep + repulsion (apfClearance drone obs)
             * (vec_y drone - (ob_y obs + ob_height obs / 2))
             / hypot (vec_x drone - (ob_x obs + ob_width obs / 2))
                     (vec_y drone - (ob_y obs + ob_height obs / 2))\<rparr>
      else rep)"
  by (simp add: apfRepulse_def apfClearance_def repulsion_def Let_def)

lemma apfRepulse_bound:
  assumes "0 < \<delta>" and "apfClearance drone obs \<le> 0 \<or> \<delta> \<le> apfClearance drone obs"
  shows "magnitudeOf (apfRepulse drone rep obs) \<le> magnitudeOf rep + 500 / \<delta> ^ 3"
proof (cases "apfClearance drone obs < 80 \<and> apfClearance drone obs > 0")
  case False
  have "apfRepulse drone rep obs = rep"
    by (subst apfRepulse_cases) (rule if_not_P [OF False])
  with assms(1) show ?thesis by simp
next
  case True
  let ?d = "apfClearance drone obs"
  let ?a = "vec_x drone - (ob_x obs + ob_width obs / 2)"
  let ?b = "vec_y drone - (ob_y obs + ob_height obs / 2)"
  from True have m: "0 \<le> repulsion ?d" by (intro repulsion_nonneg) simp_all
  from True assms have "\<delta> \<le> ?d" by auto
  with assms(1) have le: "repulsion ?d \<le> 500 / \<delta> ^ 3" by (rule repulsion_le)
  have "magnitudeOf (apfRepulse drone rep obs)
      \<le> magnitudeOf rep + hypot (repulsion ?d * ?a / hypot ?a ?b) (repulsion ?d * ?b / hypot ?a ?b)"
    using True by (simp add: apfRepulse_cases magnitudeOf_add)
  also have "\<dots> \<le> magnitudeOf rep + repulsion ?d"
    using hypot_direction [OF m, of ?a ?b] by simp
  also have "\<dots> \<le> magnitudeOf rep + 500 / \<delta> ^ 3"
    using le by simp
  finally show ?thesis .
qed

lemma foldl_apfRepulse_bound:
  assumes "0 < \<delta>"
  shows "\<forall>obs \<in> set obstacles. apfClearance drone obs \<le> 0 \<or> \<delta> \<le> apfClearance drone obs \<Longrightarrow>
     magnitudeOf (foldl (apfRepulse drone) rep obstacles)
       \<le> magnitudeOf rep + real (length obstacles) * (500 / \<delta> ^ 3)"
proof (induction obstacles arbitrary: rep)
  case Nil
  show ?case by simp
next
  case (Cons obs obstacles)
  have "magnitudeOf (foldl (apfRepulse drone) rep (obs # obstacles))
      \<le> magnitudeOf (apfRepulse drone rep obs) + real (length obstacles) * (500 / \<delta> ^ 3)"
    using Cons.IH [of "apfRepulse drone rep obs"] Cons.prems by simp
  also have "\<dots> \<le> magnitudeOf rep + 500 / \<delta> ^ 3 + real (length obstacles) * (500 / \<delta> ^ 3)"
    using apfRepulse_bound [OF assms, of drone obs rep] Cons.prems by simp
  also have "\<dots> = magnitudeOf rep + real (length (obs # obstacles)) * (500 / \<delta> ^ 3)"
    by (simp add: algebra_simps add_divide_distrib)
  finally show ?case .
qed

lemma attraction_bound: "hypot (1 * a / max (hypot a b) 1) (1 * b / max (hypot a b) 1) \<le> 1"
proof -
  have "hypot (1 * a / max (hypot a b) 1) (1 * b / max (hypot a b) 1)
      = 1 * (hypot a b / \<bar>max (hypot a b) 1\<bar>)"
    by (rule hypot_scaled) simp
  also have "\<dots> \<le> 1" by (simp add: hypot_def)
  finally show ?thesis .
qed

lemma apfNavigate_bound:
  assumes "0 < \<delta>"
    and "\<forall>obs \<in> set obstacles. apfClearance drone obs \<le> 0 \<or> \<delta> \<le> apfClearance drone obs"
  shows "magnitudeOf (apfNavigate drone goal obstacles)
           \<le> 1 + 500 * real (length obstacles) / \<delta> ^ 3"
proof -
  let ?rep = "foldl (apfRepulse drone) \<lparr>vec_x = 0, vec_y = 0\<rparr> obstacles"
  let ?a = "vec_x goal - vec_x drone" and ?b = "vec_y goal - vec_y drone"
  have "magnitudeOf (apfNavigate drone goal obstacles)
      = magnitudeOf \<lparr>vec_x = vec_x ?rep + 1 * ?a / max (hypot ?a ?b) 1,
                     vec_y = vec_y ?rep + 1 * ?b / max (hypot ?a ?b) 1\<rparr>"
    by (simp add: apfNavigate_def Let_def add.commute)
  also have "\<dots> \<le> magnitudeOf ?rep
      + hypot (1 * ?a / max (hypot ?a ?b) 1) (1 * ?b / max (hypot ?a ?b) 1)"
    by (rule magnitudeOf_add)
  also have "\<dots> \<le> magnitudeOf ?rep + 1"
    using attraction_bound [of ?a ?b] by simp
  also have "\<dots> \<le> magnitudeOf \<lparr>vec_x = 0, vec_y = 0\<rparr>
      + real (length obstacles) * (500 / \<delta> ^ 3) + 1"
    using foldl_apfRepulse_bound [OF assms] by simp
  also have "\<dots> = 1 + 500 * real (length obstacles) / \<delta> ^ 3"
    by (simp add: magnitudeOf_def)
  finally show ?thesis .
qed

lemma closeBuilding_force:
  assumes "0 < \<epsilon>" "\<epsilon> < 80"
  shows "apfNavigate \<lparr>vec_x = 100, vec_y = 100\<rparr> \<lparr>vec_x = 100, vec_y = 100\<rparr> [closeBuilding \<epsilon>]
     = \<lparr>vec_x = repulsion \<epsilon>, vec_y = 0\<rparr>"
proof -
  have c: "apfClearance \<lparr>vec_x = 100, vec_y = 100\<rparr> (closeBuilding \<epsilon>) = \<epsilon>"
    using assms by (simp add: apfClearance_def closeBuilding_def DRONE_RADIUS_def)
  have "apfRepulse \<lparr>vec_x = 100, vec_y = 100\<rparr> \<lparr>vec_x = 0, vec_y = 0\<rparr> (closeBuilding \<epsilon>)
      = \<lparr>vec_x = repulsion \<epsilon>, vec_y = 0\<rparr>"
    unfolding apfRepulse_cases c using assms by (simp add: closeBuilding_def)
  then show ?thesis by (simp add: apfNavigate_def Let_def)
qed

lemma repulsion_large:
  assumes "0 \<le> B"
  shows "B < repulsion (1 / (B + 1))"
proof -
  define c where "c = 500 * ((B + 1) - 1 / 80)"
  have eq: "repulsion (1 / (B + 1)) = c * (B + 1)\<^sup>2"
    using assms by (simp add: repulsion_def power2_eq_square c_def)
  have sq: "1 \<le> (B + 1)\<^sup>2" using assms by (intro one_le_power) simp
  have c: "B < c" "0 \<le> c" using assms by (simp_all add: c_def)
  have "B < c * 1" using c by simp
  also have "\<dots> \<le> c * (B + 1)\<^sup>2"
    using sq c(2) by (rule mult_left_mono)
  finally show ?thesis by (simp only: eq)
qed

text \<open>
  Claim C4, as stated, fails: no bound holds for all configurations. The repulsive
  magnitude \<open>500 (1/d - 1/80) / d\<^sup>2\<close> is guarded only by \<open>d > 0\<close>, and grows without
  bound as the clearance \<open>d\<close> approaches zero from above: for every \<open>B\<close> a building at
  clearance \<open>1 / (B + 1)\<close> pushes the drone with a force above \<open>B\<close>.
\<close>

theorem apf_force_unbounded_counterexample:
  "\<not> (\<exists>B. \<forall>drone goal obstacles.
        (\<forall>obs \<in> set obstacles.
            \<not> (vec_x drone = ob_x obs + ob_width obs / 2 \<and>
               vec_y drone = ob_y obs + ob_height obs / 2)) \<longrightarrow>
        hypot (vec_x (apfNavigate drone goal obstacles))
              (vec_y (apfNavigate drone goal obstacles)) \<le> B)"
proof
  assume "\<exists>B. \<forall>drone goal obstacles.
        (\<forall>obs \<in> set obstacles.
            \<not> (vec_x drone = ob_x obs + ob_width obs / 2 \<and>
               vec_y drone = ob_y obs + ob_height obs / 2)) \<longrightarrow>
        hypot (vec_x (apfNavigate drone goal obstacles))
              (vec_y (apfNavigate drone goal obstacles)) \<le> B"
  then obtain B where B: "\<And>drone goal obstacles.
        (\<forall>obs \<in> set obstacles.
            \<not> (vec_x drone = ob_x obs + ob_width obs / 2 \<and>
               vec_y drone = ob_y obs + ob_height obs / 2)) \<Longrightarrow>
        hypot (vec_x (apfNavigate drone goal obstacles))
              (vec_y (apfNavigate drone goal obstacles)) \<le> B"
    by blast
  define C where "C = max B 0"
  define \<epsilon> where "\<epsilon> = 1 / (C + 1)"
  have C: "0 \<le> C" "B \<le> C" by (simp_all add: C_def)
  then have \<epsilon>: "0 < \<epsilon>" "\<epsilon> < 80" by (simp_all add: \<epsilon>_def field_simps)
  have "\<forall>obs \<in> set [closeBuilding \<epsilon>].
      \<not> (vec_x \<lparr>vec_x = 100, vec_y = 100\<rparr> = ob_x obs + ob_width obs / 2 \<and>
         vec_y \<lparr>vec_x = 100, vec_y = 100\<rparr> = ob_y obs + ob_height obs / 2)"
    using \<epsilon> by (simp add: closeBuilding_def)
  from B [OF this, of "\<lparr>vec_x = 100, vec_y = 100\<rparr>"]
  have "\<bar>repulsion \<epsilon>\<bar> \<le> B"
    by (simp add: closeBuilding_force [OF \<epsilon>])
  with C have "repulsion \<epsilon> \<le> C" by simp
  moreover have "C < repulsion \<epsilon>"
    unfolding \<epsilon>_def using C(1) by (rule repulsion_large)
  ultimately show False by simp
qed

text \<open>
  Claim C4, amended. For every drone position, goal and obstacle set in which the drone
  does not coincide with an obstacle centre and the clearance \<open>d\<close> of every obstacle (the
  distance to its centre, less half its larger side and the drone radius) is either at
  most 0 or at least some \<open>\<delta> > 0\<close>, the magnitude of the combined force is at most
  \<open>1 + 500 n / \<delta>\<^sup>3\<close>, where \<open>n\<close> is the number of obstacles. The attractive part never
  exceeds 1; the bound on the repulsive part depends on the clearance.
\<close>

theorem apf_force_bounded_by_clearance:
  assumes "0 < \<delta>"
    and "\<forall>obs \<in> set obstacles.
           \<not> (vec_x drone = ob_x obs + ob_width obs / 2 \<and>
              vec_y drone = ob_y obs + ob_height obs / 2)"
    and "\<forall>obs \<in> set obstacles. apfClearance drone obs \<le> 0 \<or> \<delta> \<le> apfClearance drone obs"
  shows "hypot (vec_x (apfNavigate drone goal obstacles))
               (vec_y (apfNavigate drone goal obstacles))
           \<le> 1 + 500 * real (length obstacles) / \<delta> ^ 3"
  using apfNavigate_bound [OF assms(1,3)] by (simp add: magnitudeOf_def)

theorem apf_force_bounded_by_clearance_witness:
  "hypot (vec_x (apfNavigate \<lparr>vec_x = 100, vec_y = 100\<rparr> \<lparr>vec_x = 200, vec_y = 100\<rparr> [building]))
         (vec_y (apfNavigate \<lparr>vec_x = 100, vec_y = 100\<rparr> \<lparr>vec_x = 200, vec_y = 100\<rparr> [building]))
     \<le> 1 + 500 * real (length [building]) / 13 ^ 3"
proof -
  have a: "(0::real) < 13" by simp
  have b: "\<forall>obs \<in> set [building].
      \<not> (vec_x \<lparr>vec_x = 100, vec_y = 100\<rparr> = ob_x obs + ob_width obs / 2 \<and>
         vec_y \<lparr>vec_x = 100, vec_y = 100\<rparr> = ob_y obs + ob_height obs / 2)"
    by (simp add: building_def)
  have c: "\<forall>obs \<in> set [building]. apfClearance \<lparr>vec_x = 100, vec_y = 100\<rparr> obs \<le> 0 \<or>
      13 \<le> apfClearance \<lparr>vec_x = 100, vec_y = 100\<rparr> obs"
    by (simp add: apfClearance_def building_def DRONE_RADIUS_def)
  show ?thesis by (rule apf_force_bounded_by_clearance [OF a b c])
qed

subsection \<open>Dynamic obstacles\<close>

lemma limitSpeed_bound:
  "sqrt ((vec_x (limitSpeed v))\<^sup>2 + (vec_y (limitSpeed v))\<^sup>2) \<le> obstacleMaxSpeed"
proof -
  define s where "s = sqrt ((vec_x v)\<^sup>2 + (vec_y v)\<^sup>2)"
  have s0: "0 \<le> s" by (simp add: s_def)
  have scaled: "sqrt ((vec_x v / s * c)\<^sup>2 + (vec_y v / s * c)\<^sup>2) = c"
    if "0 < s" "0 \<le> c" for c
  proof -
    have "(vec_x v / s * c)\<^sup>2 + (vec_y v / s * c)\<^sup>2 = (c / s)\<^sup>2 * ((vec_x v)\<^sup>2 + (vec_y v)\<^sup>2)"
      by (simp add: power_divide power_mult_distrib add_divide_distrib algebra_simps)
    then have "sqrt ((vec_x v / s * c)\<^sup>2 + (vec_y v / s * c)\<^sup>2) = \<bar>c / s\<bar> * s"
      by (simp add: real_sqrt_mult s_def)
    with that show ?thesis by simp
  qed
  consider (fast) "s > obstacleMaxSpeed" | (slow) "s < obstacleMinSpeed"
    | (band) "\<not> s > obstacleMaxSpeed" "\<not> s < obstacleMinSpeed"
    by blast
  then show ?thesis
  proof cases
    case fast
    then have pos: "0 < s" and ns: "\<not> s < obstacleMinSpeed"
      by (simp_all add: obstacleMaxSpeed_def obstacleMinSpeed_def)
    have ls: "limitSpeed v = \<lparr>vec_x = vec_x v / s * obstacleMaxSpeed,
        vec_y = vec_y v / s * obstacleMaxSpeed\<rparr>"
      using fast ns by (simp add: limitSpeed_def Let_def s_def [symmetric])
    have "sqrt ((vec_x v / s * obstacleMaxSpeed)\<^sup>2 + (vec_y v / s * obstacleMaxSpeed)\<^sup>2)
        = obstacleMaxSpeed"
      by (rule scaled [OF pos]) (simp add: obstacleMaxSpeed_def)
    then show ?thesis unfolding ls by simp
  next
    case slow
    then have nf: "\<not> s > obstacleMaxSpeed"
      by (simp add: obstacleMaxSpeed_def obstacleMinSpeed_def)
    show ?thesis
    proof (cases "s = 0")
      case True
      then have "(vec_x v)\<^sup>2 + (vec_y v)\<^sup>2 = 0" by (simp add: s_def)
      then have "vec_x v = 0" "vec_y v = 0"
        by (simp_all add: sum_power2_eq_zero_iff)
      with slow nf True show ?thesis
        by (simp add: limitSpeed_def Let_def s_def [symmetric] obstacleMaxSpeed_def)
    next
      case False
      with s0 have pos: "0 < s" by simp
      have ls: "limitSpeed v = \<lparr>vec_x = vec_x v / s * obstacleMinSpeed,
          vec_y = vec_y v / s * obstacleMinSpeed\<rparr>"
        using slow nf False by (simp add: limitSpeed_def Let_def s_def [symmetric])
      have "sqrt ((vec_x v / s * obstacleMinSpeed)\<^sup>2 + (vec_y v / s * obstacleMinSpeed)\<^sup>2)
          = obstacleMinSpeed"
        by (rule scaled [OF pos]) (simp add: obstacleMinSpeed_def)
      then have "sqrt ((vec_x (limitSpeed v))\<^sup>2 + (vec_y (limitSpeed v))\<^sup>2) = obstacleMinSpeed"
        unfolding ls by simp
      then show ?thesis by (simp add: obstacleMinSpeed_def obstacleMaxSpeed_def)
    qed
  next
    case band
    then show ?thesis
      by (simp add: limitSpeed_def Let_def s_def [symmetric])
  qed
qed

lemma clamp_fits: "w \<le> W \<Longrightarrow> 0 \<le> max 0 (min (W - w) t) \<and> max 0 (min (W - w) t) + w \<le> (W::real)"
  by auto

lemma updateObstacle_shape:
  "\<exists>obs' k'. updateObstacle rnd W H (obsl, k) i = (obsl[i := obs'], k') \<and>
     (dynamicWellFormed W H (obsl ! i) \<longrightarrow>
        dynamicWellFormed W H obs' \<and> dynamicInBounds W H obs')"
proof (cases "ob_velocity (obsl ! i)")
  case None
  then have "updateObstacle rnd W H (obsl, k) i = (obsl[i := obsl ! i], k)"
    by (simp add: updateObstacle_def)
  moreover from None have "dynamicWellFormed W H (obsl ! i) \<longrightarrow> dynamicInBounds W H (obsl ! i)"
    by (simp add: dynamicWellFormed_def dynamicInBounds_def)
  ultimately show ?thesis by blast
next
  case (Some velocity)
  show ?thesis
  proof (cases "ob_type (obsl ! i) = Dynamic")
    case False
    with Some have "updateObstacle rnd W H (obsl, k) i = (obsl[i := obsl ! i], k)"
      by (simp add: updateObstacle_def)
    moreover from False have "dynamicInBounds W H (obsl ! i)"
      by (simp add: dynamicInBounds_def)
    ultimately show ?thesis by blast
  next
    case True
    define bounced where "bounced = bounceVelocity rnd W H obsl k i velocity"
    define v where "v = limitSpeed (fst bounced)"
    define obs' where "obs' = (obsl ! i)\<lparr>
        ob_x := max 0 (min (W - ob_width (obsl ! i)) (ob_x (obsl ! i) + vec_x v)),
        ob_y := max 0 (min (H - ob_height (obsl ! i)) (ob_y (obsl ! i) + vec_y v)),
        ob_velocity := Some v\<rparr>"
    from Some True have "updateObstacle rnd W H (obsl, k) i = (obsl[i := obs'], snd bounced)"
      by (simp add: updateObstacle_def Let_def bounced_def v_def obs'_def)
    moreover have "dynamicWellFormed W H (obsl ! i) \<longrightarrow>
        dynamicWellFormed W H obs' \<and> dynamicInBounds W H obs'"
      using clamp_fits [of "ob_width (obsl ! i)" W "ob_x (obsl ! i) + vec_x v"]
        clamp_fits [of "ob_height (obsl ! i)" H "ob_y (obsl ! i) + vec_y v"]
        limitSpeed_bound [of "fst bounced"]
      by (simp add: dynamicWellFormed_def dynamicInBounds_def obs'_def v_def [symmetric])
    ultimately show ?thesis by blast
  qed
qed

text \<open>The sweep over the first \<open>n\<close> obstacles leaves the later ones as they were and the
  earlier ones in bounds.\<close>

lemma updateObstacles_prefix:
  assumes wf: "\<forall>obs \<in> set obsl. dynamicWellFormed W H obs"
  shows "n \<le> length obsl \<Longrightarrow>
     length (fst (foldl (updateObstacle rnd W H) (obsl, k) [0..<n])) = length obsl \<and>
     (\<forall>j < length obsl.
        (j < n \<longrightarrow>
           dynamicWellFormed W H (fst (foldl (updateObstacle rnd W H) (obsl, k) [0..<n]) ! j) \<and>
           dynamicInBounds W H (fst (foldl (updateObstacle rnd W H) (obsl, k) [0..<n]) ! j)) \<and>
        (n \<le> j \<longrightarrow> fst (foldl (updateObstacle rnd W H) (obsl, k) [0..<n]) ! j = obsl ! j))"
proof (induction n)
  case 0
  show ?case by simp
next
  case (Suc n)
  define st where "st = foldl (updateObstacle rnd W H) (obsl, k) [0..<n]"
  from Suc have IH: "length (fst st) = length obsl"
    "\<And>j. j < n \<Longrightarrow> dynamicWellFormed W H (fst st ! j) \<and> dynamicInBounds W H (fst st ! j)"
    "\<And>j. n \<le> j \<Longrightarrow> j < length obsl \<Longrightarrow> fst st ! j = obsl ! j"
    and n: "n < length obsl"
    by (simp_all add: st_def)
  from updateObstacle_shape [of rnd W H "fst st" "snd st" n]
  obtain obs' k' where upd: "updateObstacle rnd W H st n = ((fst st)[n := obs'], k')"
    and good: "dynamicWellFormed W H (fst st ! n) \<longrightarrow>
        dynamicWellFormed W H obs' \<and> dynamicInBounds W H obs'"
    by auto
  from IH(3) [of n] n wf have "dynamicWellFormed W H (fst st ! n)" by simp
  with good have good': "dynamicWellFormed W H obs'" "dynamicInBounds W H obs'" by simp_all
  have fold: "foldl (updateObstacle rnd W H) (obsl, k) [0..<Suc n] = ((fst st)[n := obs'], k')"
    by (simp add: st_def [symmetric] upd)
  show ?case
    unfolding fold using IH n good'
    by (auto simp: nth_list_update less_Suc_eq)
qed

lemma updateObstacles_bounds:
  assumes "\<forall>obs \<in> set obsl. dynamicWellFormed W H obs"
  shows "length (fst (updateObstacles rnd W H obsl)) = length obsl \<and>
     (\<forall>obs \<in> set (fst (updateObstacles rnd W H obsl)).
        dynamicWellFormed W H obs \<and> dynamicInBounds W H obs)"
  using updateObstacles_prefix [OF assms, of "length obsl" rnd 0]
  by (auto simp: updateObstacles_def in_set_conv_nth)




lemma arrivalCheck_obstacles: "st_obstacles (arrivalCheck s) = st_obstacles s"
  by (simp add: arrivalCheck_def Let_def split: option.splits)

lemma animate_obstacles:
  "st_obstacles (animate m sp w h rnd s) = fst (updateObstacles rnd w h (st_obstacles s))"
  by (simp add: animate_def Let_def navigationStep_def arrivalCheck_obstacles avoidStep_def
      steerDrone_def enterAvoiding_def split: option.splits)

lemma simulate_wellFormed:
  assumes "\<forall>obs \<in> set (st_obstacles s). dynamicWellFormed w h obs"
  shows "\<forall>obs \<in> set (st_obstacles (simulate m sp w h rnds n s)). dynamicWellFormed w h obs"
proof (induction n)
  case 0
  from assms show ?case by simp
next
  case (Suc n)
  from updateObstacles_bounds [OF Suc, of "rnds n"] show ?case
    by (simp add: animate_obstacles)
qed

lemma simulate_inBounds:
  assumes "\<forall>obs \<in> set (st_obstacles s). dynamicWellFormed w h obs"
  shows "\<forall>obs \<in> set (st_obstacles (simulate m sp w h rnds (Suc n) s)). dynamicInBounds w h obs"
  using updateObstacles_bounds [OF simulate_wellFormed [OF assms, of m sp rnds n], of "rnds n"]
  by (simp add: animate_obstacles)

text \<open>The fields that \<^verbatim>\<open>generateObstacles\<close> makes.\<close>

lemma placeCell_generated:
  "\<forall>obs \<in> set (fst st). generated obs \<Longrightarrow>
     \<forall>obs \<in> set (fst (placeCell rnd w h cw ch row col st)). generated obs"
  by (auto simp: placeCell_def Let_def generated_def)

lemma colLoop_generated:
  "\<forall>obs \<in> set (fst st). generated obs \<Longrightarrow>
     \<forall>obs \<in> set (fst (colLoop rnd w h cw ch staticCount cols row col st)). generated obs"
proof (induction rnd w h cw ch staticCount cols row col st rule: colLoop.induct)
  case (1 rnd w h cw ch staticCount cols row col st)
  show ?case
  proof (cases "int col < cols \<and> int (fst (snd st)) < staticCount")
    case True
    from "1.prems" have "\<forall>obs \<in> set (fst (placeCell rnd w h cw ch row col st)). generated obs"
      by (rule placeCell_generated)
    from "1.IH" [OF True this] show ?thesis
      by (subst colLoop.simps) (simp only: True if_True simp_thms)
  next
    case False
    from "1.prems" show ?thesis
      by (subst colLoop.simps) (simp only: False if_False)
  qed
qed

lemma rowLoop_generated:
  "\<forall>obs \<in> set (fst st). generated obs \<Longrightarrow>
     \<forall>obs \<in> set (fst (rowLoop rnd w h cw ch staticCount rows cols row st)). generated obs"
proof (induction rnd w h cw ch staticCount rows cols row st rule: rowLoop.induct)
  case (1 rnd w h cw ch staticCount rows cols row st)
  show ?case
  proof (cases "int row < rows \<and> int (fst (snd st)) < staticCount")
    case True
    from "1.prems" have "\<forall>obs \<in> set (fst (colLoop rnd w h cw ch staticCount cols row 0 st)).
        generated obs"
      by (rule colLoop_generated)
    from "1.IH" [OF True this] show ?thesis
      by (subst rowLoop.simps) (simp only: True if_True simp_thms)
  next
    case False
    from "1.prems" show ?thesis
      by (subst rowLoop.simps) (simp only: False if_False)
  qed
qed

lemma dynamicAttempt_generated:
  "\<forall>obs \<in> set (fst st). generated obs \<Longrightarrow>
     \<forall>obs \<in> set (fst (fst (dynamicAttempt rnd w h st))). generated obs"
  by (auto simp: dynamicAttempt_def Let_def generated_def)

lemma placeDynamic_generated:
  "\<forall>obs \<in> set (fst st). generated obs \<Longrightarrow>
     \<forall>obs \<in> set (fst (placeDynamic rnd w h placed attempts st)). generated obs"
proof (induction rnd w h placed attempts st rule: placeDynamic.induct)
  case (1 rnd w h placed attempts st)
  show ?case
  proof (cases "\<not> placed \<and> attempts < 50")
    case False
    from "1.prems" show ?thesis
      by (subst placeDynamic.simps) (simp only: False if_False)
  next
    case True
    from "1.prems" have "\<forall>obs \<in> set (fst (fst (dynamicAttempt rnd w h st))). generated obs"
      by (rule dynamicAttempt_generated)
    from "1.IH" [OF True this] show ?thesis
      by (subst placeDynamic.simps) (simp only: True if_True simp_thms)
  qed
qed

lemma foldl_placeDynamic_generated:
  "\<forall>obs \<in> set (fst st). generated obs \<Longrightarrow>
     \<forall>obs \<in> set (fst (foldl (\<lambda>st i. placeDynamic rnd w h False 0 st) st is)). generated obs"
proof (induction "is" arbitrary: st)
  case Nil
  then show ?case by simp
next
  case (Cons i "is")
  from Cons.prems have "\<forall>obs \<in> set (fst (placeDynamic rnd w h False 0 st)). generated obs"
    by (rule placeDynamic_generated)
  then have "\<forall>obs \<in> set (fst (foldl (\<lambda>st i. placeDynamic rnd w h False 0 st)
      (placeDynamic rnd w h False 0 st) is)). generated obs"
    by (rule Cons.IH)
  then show ?case by simp
qed

lemma generateObstacles_generated:
  "\<forall>obs \<in> set (generateObstacles count dynamicCount w h rnd). generated obs"
proof -
  define statics where "statics =
    (if count - int dynamicCount \<le> 0 then ([], 0, 0)
     else rowLoop rnd w h
       ((w - 2 * 60) / real_of_int (max 2 \<lceil>sqrt (real_of_int (count - int dynamicCount) * (w / h) * 0.6)\<rceil>))
       ((h - 2 * 60) / real_of_int (max 2 \<lceil>real_of_int (count - int dynamicCount)
           / real_of_int (max 2 \<lceil>sqrt (real_of_int (count - int dynamicCount) * (w / h) * 0.6)\<rceil>)\<rceil>))
       (count - int dynamicCount)
       (max 2 \<lceil>real_of_int (count - int dynamicCount)
           / real_of_int (max 2 \<lceil>sqrt (real_of_int (count - int dynamicCount) * (w / h) * 0.6)\<rceil>)\<rceil>)
       (max 2 \<lceil>sqrt (real_of_int (count - int dynamicCount) * (w / h) * 0.6)\<rceil>)
       0 ([], 0, 0))"
  have empty: "\<forall>obs \<in> set (fst (([], 0, 0) :: placement)). generated obs" by simp
  have "\<forall>obs \<in> set (fst statics). generated obs"
  proof (cases "count - int dynamicCount \<le> 0")
    case True
    then have "statics = ([], 0, 0)" unfolding statics_def by (simp only: if_True)
    then show ?thesis by simp
  next
    case False
    show ?thesis unfolding statics_def
      by (simp only: False if_False) (rule rowLoop_generated [OF empty])
  qed
  then have "\<forall>obs \<in> set (fst (fst statics, snd (snd statics))). generated obs" by simp
  then have "\<forall>obs \<in> set (fst (foldl (\<lambda>st i. placeDynamic rnd w h False 0 st)
      (fst statics, snd (snd statics)) [0..<dynamicCount])). generated obs"
    by (rule foldl_placeDynamic_generated)
  moreover have "generateObstacles count dynamicCount w h rnd
      = fst (foldl (\<lambda>st i. placeDynamic rnd w h False 0 st)
          (fst statics, snd (snd statics)) [0..<dynamicCount])"
    unfolding generateObstacles_def statics_def Let_def ..
  ultimately show ?thesis by simp
qed

text \<open>Every generated field is well formed on a canvas of at least 24 by 24, so its
  dynamic obstacles stay in bounds.\<close>

lemma generateObstacles_wellFormed:
  assumes "24 \<le> canvasWidth" and "24 \<le> canvasHeight"
  shows "\<forall>obs \<in> set (generateObstacles count dynamicCount canvasWidth canvasHeight rnd).
      dynamicWellFormed canvasWidth canvasHeight obs"
proof
  fix obs
  assume "obs \<in> set (generateObstacles count dynamicCount canvasWidth canvasHeight rnd)"
  with generateObstacles_generated have "generated obs" by blast
  with assms show "dynamicWellFormed canvasWidth canvasHeight obs"
    by (auto simp: generated_def dynamicWellFormed_def)
qed

lemma generated_field_in_bounds:
  assumes "24 \<le> canvasWidth" and "24 \<le> canvasHeight"
    and "st_obstacles s = generateObstacles count dynamicCount canvasWidth canvasHeight rnd"
  shows "\<forall>obs \<in> set (st_obstacles
            (simulate algorithmMode speed canvasWidth canvasHeight rnds (Suc n) s)).
      dynamicInBounds canvasWidth canvasHeight obs"
proof (rule simulate_inBounds)
  from generateObstacles_wellFormed [OF assms(1,2)] assms(3)
  show "\<forall>obs \<in> set (st_obstacles s). dynamicWellFormed canvasWidth canvasHeight obs"
    by simp
qed




subsection \<open>The octile heuristic\<close>

lemma sqrt2_bounds: "1 \<le> sqrt 2" "sqrt 2 \<le> 2"
proof -
  show "1 \<le> sqrt 2" by simp
  show "sqrt 2 \<le> 2" by (rule real_le_lsqrt) simp_all
qed

lemma octile_as_max:
  fixes p q k :: real
  assumes "0 \<le> k" "k \<le> 1"
  shows "max p q + k * min p q = max (p + k * q) (q + k * p)"
proof (cases "p \<le> q")
  case True
  then have "(q - p) * k \<le> (q - p) * 1"
    using assms by (intro mult_left_mono) simp_all
  then have "p + k * q \<le> q + k * p" by (simp add: algebra_simps)
  with True show ?thesis by (simp add: max_def min_def)
next
  case False
  then have "(p - q) * k \<le> (p - q) * 1"
    using assms by (intro mult_left_mono) simp_all
  then have "q + k * p \<le> p + k * q" by (simp add: algebra_simps)
  with False show ?thesis by (simp add: max_def min_def)
qed

lemma weighted_triangle:
  fixes u v p q k :: real
  assumes "0 \<le> k"
  shows "\<bar>u\<bar> + k * \<bar>v\<bar> \<le> (\<bar>u + p\<bar> + k * \<bar>v + q\<bar>) + (\<bar>p\<bar> + k * \<bar>q\<bar>)"
proof -
  have "\<bar>u\<bar> \<le> \<bar>u + p\<bar> + \<bar>p\<bar>" by simp
  moreover have "\<bar>v\<bar> \<le> \<bar>v + q\<bar> + \<bar>q\<bar>" by simp
  then have "k * \<bar>v\<bar> \<le> k * (\<bar>v + q\<bar> + \<bar>q\<bar>)"
    using assms by (rule mult_left_mono)
  ultimately show ?thesis by (simp add: algebra_simps)
qed

lemma heuristic_octile:
  "heuristic a b = octile (real_of_int (fst a - fst b)) (real_of_int (snd a - snd b))"
  by (simp add: heuristic_def octile_def Let_def)

lemma octile_step:
  assumes "\<bar>p\<bar> + (sqrt 2 - 1) * \<bar>q\<bar> \<le> c" "\<bar>q\<bar> + (sqrt 2 - 1) * \<bar>p\<bar> \<le> c"
  shows "octile u v \<le> c + octile (u + p) (v + q)"
proof -
  let ?k = "sqrt 2 - 1"
  have k: "0 \<le> ?k" "?k \<le> 1" using sqrt2_bounds by simp_all
  have "\<bar>u\<bar> + ?k * \<bar>v\<bar> \<le> (\<bar>u + p\<bar> + ?k * \<bar>v + q\<bar>) + c"
    using weighted_triangle [OF k(1), of u v p q] assms(1) by simp
  moreover have "\<bar>v\<bar> + ?k * \<bar>u\<bar> \<le> (\<bar>v + q\<bar> + ?k * \<bar>u + p\<bar>) + c"
    using weighted_triangle [OF k(1), of v u q p] assms(2) by simp
  ultimately have "max (\<bar>u\<bar> + ?k * \<bar>v\<bar>) (\<bar>v\<bar> + ?k * \<bar>u\<bar>)
      \<le> c + max (\<bar>u + p\<bar> + ?k * \<bar>v + q\<bar>) (\<bar>v + q\<bar> + ?k * \<bar>u + p\<bar>)"
    by (simp add: max_def)
  then show ?thesis
    unfolding octile_def octile_as_max [OF k] .
qed

lemma direction_cost:
  assumes "dir \<in> set directions"
  shows "\<bar>real_of_int (fst dir)\<bar> + (sqrt 2 - 1) * \<bar>real_of_int (fst (snd dir))\<bar> \<le> snd (snd dir)"
    and "\<bar>real_of_int (fst (snd dir))\<bar> + (sqrt 2 - 1) * \<bar>real_of_int (fst dir)\<bar> \<le> snd (snd dir)"
  using assms sqrt2_bounds by (auto simp: directions_def)

lemma heuristic_step:
  assumes "dir \<in> set directions"
  shows "heuristic a b \<le> snd (snd dir) + heuristic (fst a + fst dir, snd a + fst (snd dir)) b"
proof -
  have "octile (real_of_int (fst a - fst b)) (real_of_int (snd a - snd b))
      \<le> snd (snd dir) + octile (real_of_int (fst a - fst b) + real_of_int (fst dir))
           (real_of_int (snd a - snd b) + real_of_int (fst (snd dir)))"
    by (rule octile_step) (rule direction_cost [OF assms])+
  then show ?thesis
    by (simp add: heuristic_octile algebra_simps)
qed

lemma heuristic_self: "heuristic a a = 0"
  by (simp add: heuristic_def)

lemma heuristic_le_cost:
  "set dirs \<subseteq> set directions \<Longrightarrow> heuristic a (followMoves a dirs) \<le> movesCost dirs"
proof (induction dirs arbitrary: a)
  case Nil
  show ?case by (simp add: heuristic_self movesCost_def)
next
  case (Cons dir dirs)
  let ?a = "(fst a + fst dir, snd a + fst (snd dir))"
  from Cons.prems have dir: "dir \<in> set directions" and rest: "set dirs \<subseteq> set directions"
    by simp_all
  have "heuristic a (followMoves a (dir # dirs))
      \<le> snd (snd dir) + heuristic ?a (followMoves ?a dirs)"
    using heuristic_step [OF dir, of a "followMoves ?a dirs"] by simp
  also have "\<dots> \<le> snd (snd dir) + movesCost dirs"
    using Cons.IH [OF rest, of ?a] by simp
  finally show ?case by (simp add: movesCost_def)
qed

text \<open>
  Claim C9. For all grid cells \<open>a\<close> and \<open>b\<close>, the octile heuristic
  \<open>max(dx, dy) + (\<surd>2 - 1) min(dx, dy)\<close> of the grid planner is at most the cost of
  every 8-connected path from \<open>a\<close> to \<open>b\<close> (a straight move costs 1, a diagonal move
  \<open>\<surd>2\<close>), and so at most the cost of the shortest one, whatever cells are occupied.
\<close>

theorem heuristic_admissible:
  assumes "set dirs \<subseteq> set directions" and "followMoves a dirs = b"
  shows "heuristic a b \<le> movesCost dirs"
  using heuristic_le_cost [OF assms(1), of a] assms(2) by simp

theorem heuristic_admissible_witness:
  "heuristic (0, 0) (2, 1) \<le> movesCost [(1, 1, sqrt 2), (1, 0, 1)]"
proof -
  have a: "set [(1, 1, sqrt 2), (1, 0, 1)] \<subseteq> set directions"
    by (simp add: directions_def)
  have b: "followMoves (0, 0) [(1, 1, sqrt 2), (1, 0, 1)] = (2, 1)"
    by simp
  show ?thesis by (rule heuristic_admissible [OF a b])
qed

subsection \<open>Path smoothing\<close>

lemma segmentsFree_nth:
  "segmentsFree obstacles ps \<Longrightarrow> Suc i < length ps \<Longrightarrow>
     hasLineOfSight (ps ! i) (ps ! Suc i) obstacles"
  unfolding segmentsFree_def by (simp add: successively_conv_nth)

lemma segmentsFree_snoc:
  "ps \<noteq> [] \<Longrightarrow> segmentsFree obstacles ps \<Longrightarrow> hasLineOfSight (last ps) q obstacles \<Longrightarrow>
     segmentsFree obstacles (ps @ [q])"
  unfolding segmentsFree_def by (simp add: successively_append_iff)

lemma furthestVisible_visible:
  "furthestVisible path obstacles current i = current + 1 \<or>
   hasLineOfSight (path ! current) (path ! furthestVisible path obstacles current i) obstacles"
proof (induction path obstacles current i rule: furthestVisible.induct)
  case (1 path obstacles current i)
  show ?case
  proof (cases "i > current + 1")
    case False
    then show ?thesis by (subst furthestVisible.simps) simp
  next
    case True
    show ?thesis
    proof (cases "hasLineOfSight (path ! current) (path ! i) obstacles")
      case los: True
      with True have "furthestVisible path obstacles current i = i"
        by (subst furthestVisible.simps) simp
      with los show ?thesis by simp
    next
      case nolos: False
      with True have "furthestVisible path obstacles current i
          = furthestVisible path obstacles current (i - 1)"
        by (subst furthestVisible.simps) simp
      with "1.IH" [OF True nolos] show ?thesis by simp
    qed
  qed
qed

lemma smoothLoop_length:
  "current < length path \<Longrightarrow>
     length (smoothLoop path obstacles current smoothed)
       \<le> length smoothed + (length path - 1 - current)"
proof (induction path obstacles current smoothed rule: smoothLoop.induct)
  case (1 path obstacles current smoothed)
  show ?case
  proof (cases "current < length path - 1")
    case False
    then show ?thesis by (subst smoothLoop.simps) simp
  next
    case True
    define furthest where "furthest = furthestVisible path obstacles current (length path - 1)"
    have gt: "current < furthest" unfolding furthest_def by (rule furthestVisible_gt)
    from True have le: "furthest \<le> length path - 1"
      unfolding furthest_def by (intro furthestVisible_le) simp
    with True have "furthest < length path" by simp
    from "1.IH" [OF True furthest_def this]
    have "length (smoothLoop path obstacles furthest (smoothed @ [path ! furthest]))
        \<le> length smoothed + 1 + (length path - 1 - furthest)"
      by simp
    moreover from True have "smoothLoop path obstacles current smoothed
        = smoothLoop path obstacles furthest (smoothed @ [path ! furthest])"
      by (subst smoothLoop.simps) (simp add: Let_def furthest_def)
    ultimately show ?thesis using gt le by simp
  qed
qed

lemma smoothPath_length: "length (smoothPath path obstacles) \<le> length path"
proof (cases "length path \<le> 2")
  case True
  then show ?thesis by (simp add: smoothPath_def)
next
  case False
  then have "0 < length path" by (cases path) simp_all
  from smoothLoop_length [OF this, of obstacles "[path ! 0]"] False show ?thesis
    by (simp add: smoothPath_def)
qed

lemma smoothLoop_free:
  "segmentsFree obstacles path \<Longrightarrow> current < length path \<Longrightarrow> smoothed \<noteq> [] \<Longrightarrow>
   last smoothed = path ! current \<Longrightarrow> segmentsFree obstacles smoothed \<Longrightarrow>
     segmentsFree obstacles (smoothLoop path obstacles current smoothed)"
proof (induction path obstacles current smoothed rule: smoothLoop.induct)
  case (1 path obstacles current smoothed)
  show ?case
  proof (cases "current < length path - 1")
    case False
    with "1.prems" show ?thesis by (subst smoothLoop.simps) simp
  next
    case True
    define furthest where "furthest = furthestVisible path obstacles current (length path - 1)"
    from True have le: "furthest \<le> length path - 1"
      unfolding furthest_def by (intro furthestVisible_le) simp
    with True have lt: "furthest < length path" by simp
    have "hasLineOfSight (path ! current) (path ! furthest) obstacles"
    proof (cases "furthest = current + 1")
      case True
      with lt "1.prems"(1) show ?thesis by (simp add: segmentsFree_nth)
    next
      case False
      with furthestVisible_visible [of path obstacles current "length path - 1"]
      show ?thesis by (simp add: furthest_def)
    qed
    with "1.prems" have "segmentsFree obstacles (smoothed @ [path ! furthest])"
      by (intro segmentsFree_snoc) simp_all
    with "1.prems"(1) lt
    have "segmentsFree obstacles (smoothLoop path obstacles furthest (smoothed @ [path ! furthest]))"
      by (intro "1.IH" [OF True furthest_def]) simp_all
    moreover from True have "smoothLoop path obstacles current smoothed
        = smoothLoop path obstacles furthest (smoothed @ [path ! furthest])"
      by (subst smoothLoop.simps) (simp add: Let_def furthest_def)
    ultimately show ?thesis by simp
  qed
qed

lemma smoothPath_free:
  assumes "segmentsFree obstacles path"
  shows "segmentsFree obstacles (smoothPath path obstacles)"
proof (cases "length path \<le> 2")
  case True
  with assms show ?thesis by (simp add: smoothPath_def)
next
  case False
  then have "0 < length path" by (cases path) simp_all
  with assms have "segmentsFree obstacles (smoothLoop path obstacles 0 [path ! 0])"
    by (intro smoothLoop_free) (simp_all add: segmentsFree_def)
  with False show ?thesis by (simp add: smoothPath_def)
qed

subsection \<open>The raw path of the grid planner\<close>

lemma between_ends:
  fixes a b t :: real
  assumes "0 \<le> t" "t \<le> 1"
  shows "min a b \<le> a + (b - a) * t \<and> a + (b - a) * t \<le> max a b"
proof (cases "a \<le> b")
  case True
  then have d: "0 \<le> b - a" by simp
  from d assms(1) have "0 \<le> (b - a) * t" by (rule mult_nonneg_nonneg)
  moreover from assms(2) d have "(b - a) * t \<le> (b - a) * 1" by (rule mult_left_mono)
  ultimately show ?thesis using True by (simp add: min_def max_def)
next
  case False
  define u where "u = (a - b) * t"
  from False have d: "0 \<le> a - b" by simp
  from d assms(1) have "0 \<le> u" unfolding u_def by (rule mult_nonneg_nonneg)
  moreover from assms(2) d have "u \<le> (a - b) * 1" unfolding u_def by (rule mult_left_mono)
  moreover have "(b - a) * t = - u" by (simp add: u_def algebra_simps)
  ultimately show ?thesis using False by (simp add: min_def max_def)
qed

text \<open>A point between two neighbouring cells, one of which an obstacle does not occupy,
  is outside the obstacle's bound inflated by the drone radius: the occupied cells cover
  the bound inflated by a whole cell.\<close>

lemma free_cell_no_hit:
  assumes free: "(bx, by) \<notin> occupiedCells obs"
    and adj: "\<bar>ax - bx\<bar> \<le> 1" "\<bar>ay - by\<bar> \<le> 1"
    and px: "min (real_of_int ax * GRID_SIZE) (real_of_int bx * GRID_SIZE) \<le> px"
            "px \<le> max (real_of_int ax * GRID_SIZE) (real_of_int bx * GRID_SIZE)"
    and py: "min (real_of_int ay * GRID_SIZE) (real_of_int by * GRID_SIZE) \<le> py"
            "py \<le> max (real_of_int ay * GRID_SIZE) (real_of_int by * GRID_SIZE)"
  shows "\<not> inflatedHit px py obs"
proof -
  define minGx where "minGx = \<lfloor>(ob_x obs - 15) / 15\<rfloor>"
  define maxGx where "maxGx = \<lceil>(ob_x obs + ob_width obs + 15) / 15\<rceil>"
  define minGy where "minGy = \<lfloor>(ob_y obs - 15) / 15\<rfloor>"
  define maxGy where "maxGy = \<lceil>(ob_y obs + ob_height obs + 15) / 15\<rceil>"
  have cells: "occupiedCells obs = {minGx..maxGx} \<times> {minGy..maxGy}"
    by (simp add: occupiedCells_def inflation_def DRONE_RADIUS_def GRID_SIZE_def
        minGx_def maxGx_def minGy_def maxGy_def)
  have floor15: "real_of_int \<lfloor>z / 15\<rfloor> * 15 \<le> z" for z :: real
  proof -
    have "real_of_int \<lfloor>z / 15\<rfloor> * 15 \<le> (z / 15) * 15"
      by (intro mult_right_mono of_int_floor_le) simp
    then show ?thesis by simp
  qed
  have ceil15: "z \<le> real_of_int \<lceil>z / 15\<rceil> * 15" for z :: real
  proof -
    have "(z / 15) * 15 \<le> real_of_int \<lceil>z / 15\<rceil> * 15"
      by (intro mult_right_mono le_of_int_ceiling) simp
    then show ?thesis by simp
  qed
  have lo_x: "real_of_int minGx * 15 \<le> ob_x obs - 15"
    unfolding minGx_def by (rule floor15)
  have hi_x: "ob_x obs + ob_width obs + 15 \<le> real_of_int maxGx * 15"
    unfolding maxGx_def by (rule ceil15)
  have lo_y: "real_of_int minGy * 15 \<le> ob_y obs - 15"
    unfolding minGy_def by (rule floor15)
  have hi_y: "ob_y obs + ob_height obs + 15 \<le> real_of_int maxGy * 15"
    unfolding maxGy_def by (rule ceil15)
  from free cells consider "bx < minGx" | "bx > maxGx" | "by < minGy" | "by > maxGy"
    by fastforce
  then show ?thesis
  proof cases
    case 1
    with adj(1) have "ax \<le> minGx" "bx \<le> minGx" by simp_all
    then have "real_of_int ax * 15 \<le> real_of_int minGx * 15"
      "real_of_int bx * 15 \<le> real_of_int minGx * 15" by simp_all
    with px(2) lo_x have "px \<le> ob_x obs - 15" by (simp add: GRID_SIZE_def)
    then show ?thesis by (simp add: inflatedHit_def DRONE_RADIUS_def)
  next
    case 2
    with adj(1) have "maxGx \<le> ax" "maxGx \<le> bx" by simp_all
    then have "real_of_int maxGx * 15 \<le> real_of_int ax * 15"
      "real_of_int maxGx * 15 \<le> real_of_int bx * 15" by simp_all
    with px(1) hi_x have "ob_x obs + ob_width obs + 15 \<le> px" by (simp add: GRID_SIZE_def)
    then show ?thesis by (simp add: inflatedHit_def DRONE_RADIUS_def)
  next
    case 3
    with adj(2) have "ay \<le> minGy" "by \<le> minGy" by simp_all
    then have "real_of_int ay * 15 \<le> real_of_int minGy * 15"
      "real_of_int by * 15 \<le> real_of_int minGy * 15" by simp_all
    with py(2) lo_y have "py \<le> ob_y obs - 15" by (simp add: GRID_SIZE_def)
    then show ?thesis by (simp add: inflatedHit_def DRONE_RADIUS_def)
  next
    case 4
    with adj(2) have "maxGy \<le> ay" "maxGy \<le> by" by simp_all
    then have "real_of_int maxGy * 15 \<le> real_of_int ay * 15"
      "real_of_int maxGy * 15 \<le> real_of_int by * 15" by simp_all
    with py(1) hi_y have "ob_y obs + ob_height obs + 15 \<le> py" by (simp add: GRID_SIZE_def)
    then show ?thesis by (simp add: inflatedHit_def DRONE_RADIUS_def)
  qed
qed

lemma free_cell_segment:
  assumes free: "(bx, by) \<notin> occupied obstacles"
    and adj: "\<bar>ax - bx\<bar> \<le> 1" "\<bar>ay - by\<bar> \<le> 1"
  shows "hasLineOfSight (waypoint ax ay) (waypoint bx by) obstacles"
proof -
  define steps where "steps = nat \<lceil>hypot (vec_x (waypoint bx by) - vec_x (waypoint ax ay))
      (vec_y (waypoint bx by) - vec_y (waypoint ax ay)) / 5\<rceil>"
  have "sampleFree (waypoint ax ay) (waypoint bx by) obstacles steps i"
    if ne: "steps \<noteq> 0" and i: "i \<le> steps" for i
  proof -
    define t where "t = real i / real steps"
    from ne i have t: "0 \<le> t" "t \<le> 1" by (simp_all add: t_def)
    let ?px = "real_of_int ax * GRID_SIZE
        + (real_of_int bx * GRID_SIZE - real_of_int ax * GRID_SIZE) * t"
    let ?py = "real_of_int ay * GRID_SIZE
        + (real_of_int by * GRID_SIZE - real_of_int ay * GRID_SIZE) * t"
    have "\<not> inflatedHit ?px ?py obs" if "obs \<in> set obstacles" for obs
    proof -
      from free that have "(bx, by) \<notin> occupiedCells obs" by (auto simp: occupied_def)
      then show ?thesis
        using adj between_ends [OF t, of "real_of_int ax * GRID_SIZE" "real_of_int bx * GRID_SIZE"]
          between_ends [OF t, of "real_of_int ay * GRID_SIZE" "real_of_int by * GRID_SIZE"]
        by (intro free_cell_no_hit [of bx "by" obs ax ay]) simp_all
    qed
    then show ?thesis
      unfolding sampleFree_def Let_def t_def [symmetric]
      by (simp add: waypoint_def list_ex_iff)
  qed
  then show ?thesis
    unfolding hasLineOfSight_iff steps_def [symmetric] by blast
qed

lemma reconstruct_last: "last (reconstruct node) = waypoint (pn_x node) (pn_y node)"
  by (induction node rule: reconstruct.induct) (simp_all add: waypoint_def)

lemma reconstruct_nonempty: "reconstruct node \<noteq> []"
  by (induction node rule: reconstruct.induct) simp_all

lemma soundChain_free:
  "soundChain (occupied obstacles) node \<Longrightarrow> segmentsFree obstacles (reconstruct node)"
proof (induction node rule: reconstruct.induct)
  case (1 nx ny g h f)
  show ?case by (simp add: segmentsFree_def)
next
  case (2 nx ny g h f p)
  then have free: "(nx, ny) \<notin> occupied obstacles"
    and adj: "\<bar>pn_x p - nx\<bar> \<le> 1" "\<bar>pn_y p - ny\<bar> \<le> 1"
    and rest: "segmentsFree obstacles (reconstruct p)"
    by simp_all
  have "hasLineOfSight (last (reconstruct p)) (waypoint nx ny) obstacles"
    unfolding reconstruct_last using free adj by (rule free_cell_segment)
  with rest reconstruct_nonempty [of p]
  have "segmentsFree obstacles (reconstruct p @ [waypoint nx ny])"
    by (intro segmentsFree_snoc)
  then show ?case by (simp add: waypoint_def)
qed

lemma mutateFirst_set:
  "n \<in> set (mutateFirst P upd ns) \<Longrightarrow> n \<in> set ns \<or> (\<exists>m \<in> set ns. P m \<and> n = upd m)"
  by (induction ns) (auto split: if_splits)

lemma expandDir_sound:
  assumes dir: "dir \<in> set directions"
    and cur: "soundChain occ current"
    and opn: "\<forall>n \<in> set openSet. soundChain occ n"
  shows "\<forall>n \<in> set (expandDir gridW gridH occ closedSet goalNode current openSet dir).
           soundChain occ n"
proof -
  define nx where "nx = pn_x current + fst dir"
  define ny where "ny = pn_y current + fst (snd dir)"
  from dir have adj: "\<bar>pn_x current - nx\<bar> \<le> 1" "\<bar>pn_y current - ny\<bar> \<le> 1"
    by (auto simp: directions_def nx_def ny_def)
  show ?thesis
  proof (cases "nx < 0 \<or> nx \<ge> gridW \<or> ny < 0 \<or> ny \<ge> gridH \<or> (nx, ny) \<in> closedSet
      \<or> (nx, ny) \<in> occ")
    case True
    then have "expandDir gridW gridH occ closedSet goalNode current openSet dir = openSet"
      by (auto simp: expandDir_def Let_def nx_def ny_def)
    with opn show ?thesis by simp
  next
    case False
    then have free: "(nx, ny) \<notin> occ" by simp
    have new: "soundChain occ (PathNode nx ny g h f (Some current))" for g h f
      using free adj cur by simp
    have "n \<in> set openSet \<or> (\<exists>g h f. n = PathNode nx ny g h f (Some current))"
      if "n \<in> set (expandDir gridW gridH occ closedSet goalNode current openSet dir)" for n
      using that False
      by (auto simp: expandDir_def Let_def nx_def [symmetric] ny_def [symmetric]
          split: option.splits if_splits dest!: mutateFirst_set)
    with opn new show ?thesis by blast
  qed
qed

lemma foldl_expandDir_sound:
  assumes cur: "soundChain occ current"
  shows "set dirs \<subseteq> set directions \<Longrightarrow> \<forall>n \<in> set openSet. soundChain occ n \<Longrightarrow>
     \<forall>n \<in> set (foldl (expandDir gridW gridH occ closedSet goalNode current) openSet dirs).
        soundChain occ n"
proof (induction dirs arbitrary: openSet)
  case Nil
  then show ?case by simp
next
  case (Cons dir dirs)
  from Cons.prems have d: "dir \<in> set directions" and sub: "set dirs \<subseteq> set directions"
    by simp_all
  have "\<forall>n \<in> set (expandDir gridW gridH occ closedSet goalNode current openSet dir).
      soundChain occ n"
    by (rule expandDir_sound [OF d cur Cons.prems(2)])
  from Cons.IH [OF sub this] show ?case by simp
qed

lemma astarLoop_sound:
  "\<forall>n \<in> set openSet. soundChain occ n \<Longrightarrow>
   astarLoop gridW gridH occ goalNode openSet closedSet nodesExplored = (Some node, k) \<Longrightarrow>
     soundChain occ node"
proof (induction gridW gridH occ goalNode openSet closedSet nodesExplored
    rule: astarLoop.induct)
  case (1 gridW gridH occ goalNode openSet closedSet nodesExplored)
  show ?case
  proof (cases "openSet = []")
    case True
    with "1.prems"(2) show ?thesis by (subst (asm) astarLoop.simps) simp
  next
    case False
    define current where "current = hd (sort_key pn_f openSet)"
    define rest where "rest = tl (sort_key pn_f openSet)"
    from False have "length (sort_key pn_f openSet) \<noteq> 0" by simp
    then have split: "sort_key pn_f openSet = current # rest"
      unfolding current_def rest_def by (cases "sort_key pn_f openSet") auto
    have "set (current # rest) = set openSet"
      unfolding split [symmetric] by simp
    with "1.prems"(1) have cur: "soundChain occ current"
      and rst: "\<forall>n \<in> set rest. soundChain occ n" by auto
    show ?thesis
    proof (cases "pn_x current = fst goalNode \<and> pn_y current = snd goalNode")
      case True
      with False "1.prems"(2) have "node = current"
        by (subst (asm) astarLoop.simps) (auto simp: Let_def current_def)
      with cur show ?thesis by simp
    next
      case nogoal: False
      let ?closed = "insert (pn_x current, pn_y current) closedSet"
      let ?open = "foldl (expandDir gridW gridH occ ?closed goalNode current) rest directions"
      from False nogoal "1.prems"(2)
      have run: "astarLoop gridW gridH occ goalNode ?open ?closed (nodesExplored + 1)
          = (Some node, k)"
        by (subst (asm) astarLoop.simps) (auto simp: Let_def current_def rest_def)
      have "\<forall>n \<in> set ?open. soundChain occ n"
        using cur _ rst by (rule foldl_expandDir_sound) simp
      from "1.IH" [OF False current_def rest_def nogoal this run] show ?thesis .
    qed
  qed
qed

lemma astarSearch_sound:
  "astarSearch start goal obstacles w h = (Some node, k) \<Longrightarrow>
     soundChain (occupied obstacles) node"
  unfolding astarSearch_def Let_def
  by (erule astarLoop_sound [rotated]) simp

text \<open>The cells that the building occupies.\<close>

lemma building_cells: "occupied [building] = {7..12} \<times> {5..9}"
  by (simp add: occupied_def occupiedCells_def building_def inflation_def DRONE_RADIUS_def
      GRID_SIZE_def)

text \<open>A search that goes round the corner of the building: the goal is reached by the
  sixth node taken from the open set, over a raw path of six waypoints, which smoothing
  cuts to three.\<close>

lemma sqrt2_approx: "7 / 5 < sqrt 2" "sqrt 2 < 3 / 2"
proof -
  show "7 / 5 < sqrt 2" by (rule real_less_rsqrt) (simp add: power2_eq_square)
  show "sqrt 2 < 3 / 2" by (rule real_less_lsqrt) (simp_all add: power2_eq_square)
qed

lemmas bend_defs =
  bend_6_7_def bend_5_7_def bend_6_8_def bend_6_6_def bend_5_8_def bend_5_6_def
  bend_6_5_def bend_5_5_def bend_6_4_def bend_7_4_def bend_5_4_def bend_8_4_def
  bend_7_3_def bend_8_3_def bend_6_3_def bend_9_4_def bend_9_3_def

lemma bend_cells:
  "pn_x bend_6_7 = 6" "pn_y bend_6_7 = 7"
  "pn_x bend_6_6 = 6" "pn_y bend_6_6 = 6"
  "pn_x bend_6_5 = 6" "pn_y bend_6_5 = 5"
  "pn_x bend_7_4 = 7" "pn_y bend_7_4 = 4"
  "pn_x bend_8_4 = 8" "pn_y bend_8_4 = 4"
  "pn_x bend_9_4 = 9" "pn_y bend_9_4 = 4"
  by (simp_all add: bend_defs)

lemma bend_sort0:
  "sort_key pn_f
     [bend_6_7]
   = [bend_6_7]"
  using sqrt2_approx by (simp add: bend_defs)

lemma bend_expand0:
  "foldl (expandDir 47 27 ({7..12} \<times> {5..9}) {(6, 7)} (9, 4) bend_6_7)
     [] directions
   = [bend_5_7, bend_6_8, bend_6_6, bend_5_8, bend_5_6]"
  using sqrt2_approx
  by (simp add: directions_def expandDir_def Let_def heuristic_def bend_defs)

lemma bend_step0:
  "astarLoop 47 27 ({7..12} \<times> {5..9}) (9, 4)
     [bend_6_7]
     {} 0
   = astarLoop 47 27 ({7..12} \<times> {5..9}) (9, 4)
     [bend_5_7, bend_6_8, bend_6_6, bend_5_8, bend_5_6]
     {(6, 7)} 1"
  apply (subst astarLoop.simps)
  apply (simp only: bend_sort0 list.sel Let_def)
  apply (simp add: bend_cells bend_expand0 numeral_eq_Suc)
  done

lemma bend_sort1:
  "sort_key pn_f
     [bend_5_7, bend_6_8, bend_6_6, bend_5_8, bend_5_6]
   = [bend_6_6, bend_5_7, bend_6_8, bend_5_6, bend_5_8]"
  using sqrt2_approx by (simp add: bend_defs)

lemma bend_expand1:
  "foldl (expandDir 47 27 ({7..12} \<times> {5..9}) {(6, 6), (6, 7)} (9, 4) bend_6_6)
     [bend_5_7, bend_6_8, bend_5_6, bend_5_8] directions
   = [bend_5_7, bend_6_8, bend_5_6, bend_5_8, bend_6_5, bend_5_5]"
  using sqrt2_approx
  by (simp add: directions_def expandDir_def Let_def heuristic_def bend_defs)

lemma bend_step1:
  "astarLoop 47 27 ({7..12} \<times> {5..9}) (9, 4)
     [bend_5_7, bend_6_8, bend_6_6, bend_5_8, bend_5_6]
     {(6, 7)} 1
   = astarLoop 47 27 ({7..12} \<times> {5..9}) (9, 4)
     [bend_5_7, bend_6_8, bend_5_6, bend_5_8, bend_6_5, bend_5_5]
     {(6, 6), (6, 7)} 2"
  apply (subst astarLoop.simps)
  apply (simp only: bend_sort1 list.sel Let_def)
  apply (simp add: bend_cells bend_expand1 numeral_eq_Suc)
  done

lemma bend_sort2:
  "sort_key pn_f
     [bend_5_7, bend_6_8, bend_5_6, bend_5_8, bend_6_5, bend_5_5]
   = [bend_6_5, bend_5_7, bend_6_8, bend_5_6, bend_5_5, bend_5_8]"
  using sqrt2_approx by (simp add: bend_defs)

lemma bend_expand2:
  "foldl (expandDir 47 27 ({7..12} \<times> {5..9}) {(6, 5), (6, 6), (6, 7)} (9, 4) bend_6_5)
     [bend_5_7, bend_6_8, bend_5_6, bend_5_5, bend_5_8] directions
   = [bend_5_7, bend_6_8, bend_5_6, bend_5_5, bend_5_8, bend_6_4, bend_7_4, bend_5_4]"
  using sqrt2_approx
  by (simp add: directions_def expandDir_def Let_def heuristic_def bend_defs)

lemma bend_step2:
  "astarLoop 47 27 ({7..12} \<times> {5..9}) (9, 4)
     [bend_5_7, bend_6_8, bend_5_6, bend_5_8, bend_6_5, bend_5_5]
     {(6, 6), (6, 7)} 2
   = astarLoop 47 27 ({7..12} \<times> {5..9}) (9, 4)
     [bend_5_7, bend_6_8, bend_5_6, bend_5_5, bend_5_8, bend_6_4, bend_7_4, bend_5_4]
     {(6, 5), (6, 6), (6, 7)} 3"
  apply (subst astarLoop.simps)
  apply (simp only: bend_sort2 list.sel Let_def)
  apply (simp add: bend_cells bend_expand2 numeral_eq_Suc)
  done

lemma bend_sort3:
  "sort_key pn_f
     [bend_5_7, bend_6_8, bend_5_6, bend_5_5, bend_5_8, bend_6_4, bend_7_4, bend_5_4]
   = [bend_7_4, bend_6_4, bend_5_7, bend_6_8, bend_5_6, bend_5_5, bend_5_8, bend_5_4]"
  using sqrt2_approx by (simp add: bend_defs)

lemma bend_expand3:
  "foldl (expandDir 47 27 ({7..12} \<times> {5..9}) {(7, 4), (6, 5), (6, 6), (6, 7)} (9, 4) bend_7_4)
     [bend_6_4, bend_5_7, bend_6_8, bend_5_6, bend_5_5, bend_5_8, bend_5_4] directions
   = [bend_6_4, bend_5_7, bend_6_8, bend_5_6, bend_5_5, bend_5_8, bend_5_4, bend_8_4,
      bend_7_3, bend_8_3, bend_6_3]"
  using sqrt2_approx
  by (simp add: directions_def expandDir_def Let_def heuristic_def bend_defs)

lemma bend_step3:
  "astarLoop 47 27 ({7..12} \<times> {5..9}) (9, 4)
     [bend_5_7, bend_6_8, bend_5_6, bend_5_5, bend_5_8, bend_6_4, bend_7_4, bend_5_4]
     {(6, 5), (6, 6), (6, 7)} 3
   = astarLoop 47 27 ({7..12} \<times> {5..9}) (9, 4)
     [bend_6_4, bend_5_7, bend_6_8, bend_5_6, bend_5_5, bend_5_8, bend_5_4, bend_8_4,
      bend_7_3, bend_8_3, bend_6_3]
     {(7, 4), (6, 5), (6, 6), (6, 7)} 4"
  apply (subst astarLoop.simps)
  apply (simp only: bend_sort3 list.sel Let_def)
  apply (simp add: bend_cells bend_expand3 numeral_eq_Suc)
  done

lemma bend_sort4:
  "sort_key pn_f
     [bend_6_4, bend_5_7, bend_6_8, bend_5_6, bend_5_5, bend_5_8, bend_5_4, bend_8_4,
      bend_7_3, bend_8_3, bend_6_3]
   = [bend_8_4, bend_6_4, bend_5_7, bend_6_8, bend_5_6, bend_8_3, bend_5_5, bend_7_3,
      bend_5_8, bend_5_4, bend_6_3]"
  using sqrt2_approx by (simp add: bend_defs)

lemma bend_expand4:
  "foldl (expandDir 47 27 ({7..12} \<times> {5..9}) {(8, 4), (7, 4), (6, 5), (6, 6), (6, 7)} (9, 4) bend_8_4)
     [bend_6_4, bend_5_7, bend_6_8, bend_5_6, bend_8_3, bend_5_5, bend_7_3, bend_5_8,
      bend_5_4, bend_6_3] directions
   = [bend_6_4, bend_5_7, bend_6_8, bend_5_6, bend_8_3, bend_5_5, bend_7_3, bend_5_8,
      bend_5_4, bend_6_3, bend_9_4, bend_9_3]"
  using sqrt2_approx
  by (simp add: directions_def expandDir_def Let_def heuristic_def bend_defs)

lemma bend_step4:
  "astarLoop 47 27 ({7..12} \<times> {5..9}) (9, 4)
     [bend_6_4, bend_5_7, bend_6_8, bend_5_6, bend_5_5, bend_5_8, bend_5_4, bend_8_4,
      bend_7_3, bend_8_3, bend_6_3]
     {(7, 4), (6, 5), (6, 6), (6, 7)} 4
   = astarLoop 47 27 ({7..12} \<times> {5..9}) (9, 4)
     [bend_6_4, bend_5_7, bend_6_8, bend_5_6, bend_8_3, bend_5_5, bend_7_3, bend_5_8,
      bend_5_4, bend_6_3, bend_9_4, bend_9_3]
     {(8, 4), (7, 4), (6, 5), (6, 6), (6, 7)} 5"
  apply (subst astarLoop.simps)
  apply (simp only: bend_sort4 list.sel Let_def)
  apply (simp add: bend_cells bend_expand4 numeral_eq_Suc)
  done

lemma bend_sort5:
  "sort_key pn_f
     [bend_6_4, bend_5_7, bend_6_8, bend_5_6, bend_8_3, bend_5_5, bend_7_3, bend_5_8,
      bend_5_4, bend_6_3, bend_9_4, bend_9_3]
   = [bend_9_4, bend_6_4, bend_5_7, bend_6_8, bend_5_6, bend_8_3, bend_5_5, bend_7_3,
      bend_9_3, bend_5_8, bend_5_4, bend_6_3]"
  using sqrt2_approx by (simp add: bend_defs)

lemma bend_step5:
  "astarLoop 47 27 ({7..12} \<times> {5..9}) (9, 4)
     [bend_6_4, bend_5_7, bend_6_8, bend_5_6, bend_8_3, bend_5_5, bend_7_3, bend_5_8,
      bend_5_4, bend_6_3, bend_9_4, bend_9_3]
     {(8, 4), (7, 4), (6, 5), (6, 6), (6, 7)} 5
   = (Some bend_9_4, 6)"
  apply (subst astarLoop.simps)
  apply (simp only: bend_sort5 list.sel Let_def)
  apply (simp add: bend_cells numeral_eq_Suc)
  done

lemma bend_search:
  "astarSearch \<lparr>vec_x = 90, vec_y = 105\<rparr> \<lparr>vec_x = 135, vec_y = 60\<rparr> [building] 700 400
     = (Some bend_9_4, 6)"
proof -
  have start: "PathNode 6 7 0 (heuristic (6, 7) (9, 4)) (heuristic (6, 7) (9, 4)) None = bend_6_7"
    by (simp add: heuristic_def bend_6_7_def)
  have "astarSearch \<lparr>vec_x = 90, vec_y = 105\<rparr> \<lparr>vec_x = 135, vec_y = 60\<rparr> [building] 700 400
      = astarLoop 47 27 ({7..12} \<times> {5..9}) (9, 4) [bend_6_7] {} 0"
    by (simp add: astarSearch_def Let_def GRID_SIZE_def jsRound_def building_cells start)
  also note bend_step0
  also note bend_step1
  also note bend_step2
  also note bend_step3
  also note bend_step4
  also note bend_step5
  finally show ?thesis .
qed

lemma bend_raw:
  "reconstruct bend_9_4
     = [\<lparr>vec_x = 90, vec_y = 105\<rparr>, \<lparr>vec_x = 90, vec_y = 90\<rparr>, \<lparr>vec_x = 90, vec_y = 75\<rparr>,
        \<lparr>vec_x = 105, vec_y = 60\<rparr>, \<lparr>vec_x = 120, vec_y = 60\<rparr>, \<lparr>vec_x = 135, vec_y = 60\<rparr>]"
  by (simp add: bend_defs GRID_SIZE_def)

text \<open>The straight line from the start to the goal cuts the corner of the inflated building;
  the line to the waypoint before the goal passes it.\<close>

lemma bend_goal_hidden:
  "\<not> hasLineOfSight \<lparr>vec_x = 90, vec_y = 105\<rparr> \<lparr>vec_x = 135, vec_y = 60\<rparr> [building]"
proof (rule hasLineOfSight_blocked [where steps = 13 and i = 7])
  have "60 < sqrt 4050" by (rule real_less_rsqrt) simp
  moreover have "sqrt 4050 \<le> 65" by (rule real_le_lsqrt) simp_all
  ultimately have "\<lceil>sqrt 4050 / 5\<rceil> = 13" by (intro ceiling_unique) simp_all
  then show "nat \<lceil>hypot (vec_x \<lparr>vec_x = 135, vec_y = 60\<rparr> - vec_x \<lparr>vec_x = 90, vec_y = 105\<rparr>)
      (vec_y \<lparr>vec_x = 135, vec_y = 60\<rparr> - vec_y \<lparr>vec_x = 90, vec_y = 105\<rparr>) / 5\<rceil> = 13"
    by (simp add: hypot_def)
  show "\<not> sampleFree \<lparr>vec_x = 90, vec_y = 105\<rparr> \<lparr>vec_x = 135, vec_y = 60\<rparr> [building] 13 7"
    by (simp add: sampleFree_def inflatedHit_def building_def DRONE_RADIUS_def Let_def)
qed simp_all

lemma bend_waypoint_visible:
  "hasLineOfSight \<lparr>vec_x = 90, vec_y = 105\<rparr> \<lparr>vec_x = 120, vec_y = 60\<rparr> [building]"
proof (rule hasLineOfSight_free [where steps = 11])
  have "50 < sqrt 2925" by (rule real_less_rsqrt) simp
  moreover have "sqrt 2925 \<le> 55" by (rule real_le_lsqrt) simp_all
  ultimately have "\<lceil>sqrt 2925 / 5\<rceil> = 11" by (intro ceiling_unique) simp_all
  then show "nat \<lceil>hypot (vec_x \<lparr>vec_x = 120, vec_y = 60\<rparr> - vec_x \<lparr>vec_x = 90, vec_y = 105\<rparr>)
      (vec_y \<lparr>vec_x = 120, vec_y = 60\<rparr> - vec_y \<lparr>vec_x = 90, vec_y = 105\<rparr>) / 5\<rceil> = 11"
    by (simp add: hypot_def)
next
  fix i :: nat assume "i \<le> 11"
  have "\<not> (113 < 90 + 30 * (real i / 11) \<and> 78 < 105 + (- 45) * (real i / 11))"
    by auto
  then show "sampleFree \<lparr>vec_x = 90, vec_y = 105\<rparr> \<lparr>vec_x = 120, vec_y = 60\<rparr> [building] 11 i"
    by (auto simp: sampleFree_def inflatedHit_def building_def DRONE_RADIUS_def Let_def)
qed

lemma bend_smooth:
  "smoothPath
     [\<lparr>vec_x = 90, vec_y = 105\<rparr>, \<lparr>vec_x = 90, vec_y = 90\<rparr>, \<lparr>vec_x = 90, vec_y = 75\<rparr>,
      \<lparr>vec_x = 105, vec_y = 60\<rparr>, \<lparr>vec_x = 120, vec_y = 60\<rparr>, \<lparr>vec_x = 135, vec_y = 60\<rparr>]
     [building]
   = [\<lparr>vec_x = 90, vec_y = 105\<rparr>, \<lparr>vec_x = 120, vec_y = 60\<rparr>, \<lparr>vec_x = 135, vec_y = 60\<rparr>]"
proof -
  let ?raw = "[\<lparr>vec_x = 90, vec_y = 105\<rparr>, \<lparr>vec_x = 90, vec_y = 90\<rparr>, \<lparr>vec_x = 90, vec_y = 75\<rparr>,
      \<lparr>vec_x = 105, vec_y = 60\<rparr>, \<lparr>vec_x = 120, vec_y = 60\<rparr>, \<lparr>vec_x = 135, vec_y = 60\<rparr>]"
  have len: "length ?raw - 1 = 5" by simp
  have first: "furthestVisible ?raw [building] 0 5 = 4"
    apply (subst furthestVisible.simps)
    apply (simp add: bend_goal_hidden)
    apply (subst furthestVisible.simps)
    apply (simp add: bend_waypoint_visible)
    done
  have second: "furthestVisible ?raw [building] 4 5 = 5"
    by (subst furthestVisible.simps) simp
  have "smoothPath ?raw [building] = smoothLoop ?raw [building] 0 [\<lparr>vec_x = 90, vec_y = 105\<rparr>]"
    by (simp add: smoothPath_def)
  also have "\<dots> = smoothLoop ?raw [building] 4
      [\<lparr>vec_x = 90, vec_y = 105\<rparr>, \<lparr>vec_x = 120, vec_y = 60\<rparr>]"
    by (subst smoothLoop.simps) (simp only: len first Let_def, simp)
  also have "\<dots> = smoothLoop ?raw [building] 5
      [\<lparr>vec_x = 90, vec_y = 105\<rparr>, \<lparr>vec_x = 120, vec_y = 60\<rparr>, \<lparr>vec_x = 135, vec_y = 60\<rparr>]"
    by (subst smoothLoop.simps) (simp only: len second Let_def, simp)
  also have "\<dots> = [\<lparr>vec_x = 90, vec_y = 105\<rparr>, \<lparr>vec_x = 120, vec_y = 60\<rparr>, \<lparr>vec_x = 135, vec_y = 60\<rparr>]"
    by (subst smoothLoop.simps) (simp only: len, simp)
  finally show ?thesis .
qed

text \<open>
  Claim C2. For every raw path that the grid search finds (the waypoints of the parent
  chain of the node at which it reached the goal) and the obstacle set it was found for,
  the path that the planner returns is the smoothed raw path, it has no more waypoints
  than the raw path, and every segment between consecutive waypoints of it has line of
  sight: each point sampled along it lies outside every obstacle's bound inflated by the
  drone radius.
\<close>

theorem smoothed_path_collision_free:
  assumes "astarSearch start goal obstacles w h = (Some node, k)"
  shows "ar_path (astar start goal obstacles w h) = smoothPath (reconstruct node) obstacles \<and>
     length (smoothPath (reconstruct node) obstacles) \<le> length (reconstruct node) \<and>
     (\<forall>i. Suc i < length (smoothPath (reconstruct node) obstacles) \<longrightarrow>
        hasLineOfSight (smoothPath (reconstruct node) obstacles ! i)
          (smoothPath (reconstruct node) obstacles ! Suc i) obstacles)"
proof (intro conjI allI impI)
  show "ar_path (astar start goal obstacles w h) = smoothPath (reconstruct node) obstacles"
    using assms by (simp add: astar_def)
  show "length (smoothPath (reconstruct node) obstacles) \<le> length (reconstruct node)"
    by (rule smoothPath_length)
next
  fix i assume i: "Suc i < length (smoothPath (reconstruct node) obstacles)"
  from assms have "soundChain (occupied obstacles) node" by (rule astarSearch_sound)
  then have "segmentsFree obstacles (reconstruct node)" by (rule soundChain_free)
  then have "segmentsFree obstacles (smoothPath (reconstruct node) obstacles)"
    by (rule smoothPath_free)
  from segmentsFree_nth [OF this i]
  show "hasLineOfSight (smoothPath (reconstruct node) obstacles ! i)
      (smoothPath (reconstruct node) obstacles ! Suc i) obstacles" .
qed

theorem smoothed_path_collision_free_witness:
  "length (reconstruct bend_9_4) = 6 \<and>
   ar_path (astar \<lparr>vec_x = 90, vec_y = 105\<rparr> \<lparr>vec_x = 135, vec_y = 60\<rparr> [building] 700 400)
     = [\<lparr>vec_x = 90, vec_y = 105\<rparr>, \<lparr>vec_x = 120, vec_y = 60\<rparr>, \<lparr>vec_x = 135, vec_y = 60\<rparr>] \<and>
   hasLineOfSight \<lparr>vec_x = 90, vec_y = 105\<rparr> \<lparr>vec_x = 120, vec_y = 60\<rparr> [building] \<and>
   hasLineOfSight \<lparr>vec_x = 120, vec_y = 60\<rparr> \<lparr>vec_x = 135, vec_y = 60\<rparr> [building] \<and>
   \<not> hasLineOfSight \<lparr>vec_x = 90, vec_y = 105\<rparr> \<lparr>vec_x = 135, vec_y = 60\<rparr> [building]"
proof -
  have smooth: "smoothPath (reconstruct bend_9_4) [building]
      = [\<lparr>vec_x = 90, vec_y = 105\<rparr>, \<lparr>vec_x = 120, vec_y = 60\<rparr>, \<lparr>vec_x = 135, vec_y = 60\<rparr>]"
    unfolding bend_raw by (rule bend_smooth)
  from smoothed_path_collision_free [OF bend_search]
  have path: "ar_path
        (astar \<lparr>vec_x = 90, vec_y = 105\<rparr> \<lparr>vec_x = 135, vec_y = 60\<rparr> [building] 700 400)
      = smoothPath (reconstruct bend_9_4) [building]"
    and free: "\<forall>i. Suc i < length (smoothPath (reconstruct bend_9_4) [building]) \<longrightarrow>
      hasLineOfSight (smoothPath (reconstruct bend_9_4) [building] ! i)
        (smoothPath (reconstruct bend_9_4) [building] ! Suc i) [building]"
    by blast+
  from free [rule_format, of 0] free [rule_format, of 1]
  have "hasLineOfSight \<lparr>vec_x = 90, vec_y = 105\<rparr> \<lparr>vec_x = 120, vec_y = 60\<rparr> [building]"
    and "hasLineOfSight \<lparr>vec_x = 120, vec_y = 60\<rparr> \<lparr>vec_x = 135, vec_y = 60\<rparr> [building]"
    unfolding smooth by simp_all
  with path bend_goal_hidden show ?thesis unfolding smooth by (simp add: bend_raw)
qed

end
